theory Spec2Isabelle
  imports Complex_Main "HOL-Library.Word"
begin

section \<open>The poll loop of the page component (page.tsx, pollForResult)\<close>

subsection \<open>Data\<close>

text \<open>The five values of the \<^verbatim>\<open>Status\<close> type of page.tsx.\<close>

datatype Status = Idle | Uploading | Processing | Success | Error

definition POLL_INTERVAL_MS :: nat where
  "POLL_INTERVAL_MS = 2000"

definition MAX_POLLS :: nat where
  "MAX_POLLS = 45"

type_synonym byte = "8 word"

text \<open>A \<^verbatim>\<open>Blob\<close>: its bytes and its \<^verbatim>\<open>type\<close>.\<close>

record blob =
  bytes :: "byte list"
  mime :: string

text \<open>
  A value that \<^verbatim>\<open>JSON.parse\<close> returns: \<^verbatim>\<open>null\<close>, a boolean, a number, a string, an array, or
  an object with its members in the order of the text. A number is a double: a real number,
  or an infinity, which is what a literal beyond the range of a double is read as.
\<close>

datatype number = Finite real | PlusInfinity | MinusInfinity

datatype json =
    JNull
  | JBool bool
  | JNumber number
  | JString string
  | JArray "json list"
  | JObject "(string \<times> json) list"

text \<open>
  \<^verbatim>\<open>payload?.key\<close>, for a key that no prototype defines, as it is with \<^verbatim>\<open>error\<close>, \<^verbatim>\<open>taskId\<close> and
  \<^verbatim>\<open>task_id\<close>, the keys that the code reads: the member of an object, and \<^verbatim>\<open>undefined\<close>
  (\<open>None\<close>) where the object has none and for every value that is not an object. Where a
  key occurs more than once in the text of an object, its last occurrence counts.
\<close>

fun field :: "json \<Rightarrow> string \<Rightarrow> json option" where
  "field (JObject members) key = map_of (rev members) key"
| "field v key = None"

text \<open>
  \<^verbatim>\<open>!!v\<close>: \<^verbatim>\<open>undefined\<close>, \<^verbatim>\<open>null\<close>, \<^verbatim>\<open>false\<close>, zero and the empty string are falsy; every
  other value is truthy, an empty array and an empty object too.
\<close>

fun truthy :: "json option \<Rightarrow> bool" where
  "truthy None = False"
| "truthy (Some JNull) = False"
| "truthy (Some (JBool b)) = b"
| "truthy (Some (JNumber n)) = (n \<noteq> Finite 0)"
| "truthy (Some (JString s)) = (s \<noteq> [])"
| "truthy (Some (JArray vs)) = True"
| "truthy (Some (JObject members)) = True"

text \<open>\<^verbatim>\<open>v || fallback\<close>\<close>

definition or_else :: "json option \<Rightarrow> json \<Rightarrow> json" where
  "or_else v fallback = (case v of None \<Rightarrow> fallback | Some e \<Rightarrow> if truthy v then e else fallback)"



text \<open>The outcome of an awaited promise.\<close>

datatype 'a settled = Rejected | Fulfilled 'a

text \<open>
  A \<^verbatim>\<open>Response\<close> of \<^verbatim>\<open>fetch\<close>: the status, what \<^verbatim>\<open>headers.get("content-type")\<close> returns, and
  what \<^verbatim>\<open>response.json()\<close> and \<^verbatim>\<open>response.blob()\<close> settle to when they are awaited. The
  blob has the bytes of the body and the type that the browser gives it.
\<close>

record response =
  status_code :: nat
  content_type :: "string option"
  json_read :: "json settled"
  blob_read :: "blob settled"

definition ok :: "response \<Rightarrow> bool" where
  "ok r = (200 \<le> status_code r \<and> status_code r \<le> 299)"

text \<open>
  The world around one run of the loop. Time is counted in completed \<^verbatim>\<open>await\<close>s;
  \<open>abort_at = Some k\<close> says that \<^verbatim>\<open>controller.abort()\<close> is called while the loop is suspended
  in its \<open>k\<close>-th await (or before the loop starts when \<open>k = 0\<close>), so that the signal reads as
  aborted from time \<open>k\<close> on. \<open>fetch_result n\<close> is what the query of attempt \<open>n\<close> settles to.
\<close>

record environment =
  abort_at :: "nat option"
  fetch_result :: "nat \<Rightarrow> response settled"

text \<open>The observable actions of the loop, in the order in which it performs them.\<close>

datatype site = In202Branch | AfterTryCatch

datatype event =
    ReadAborted bool
  | Fetch string
  | ReadJson
  | ReadBlob
  | Sleep site nat
  | ConsoleError string
  | SetErrorMessage "json option"
  | SetStatus Status
  | SetResultUrl blob

record run =
  trace :: "event list"
  clock :: nat

datatype flow = Normal | Returns | Continues | Throws

subsection \<open>Primitives\<close>

definition emit :: "event \<Rightarrow> run \<Rightarrow> run" where
  "emit e x = x\<lparr>trace := trace x @ [e]\<rparr>"

text \<open>An \<^verbatim>\<open>await\<close>: the action, and one unit of time during which the token may be cancelled.\<close>

definition await :: "event \<Rightarrow> run \<Rightarrow> run" where
  "await e x = x\<lparr>trace := trace x @ [e], clock := Suc (clock x)\<rparr>"

definition token_aborted :: "environment \<Rightarrow> nat \<Rightarrow> bool" where
  "token_aborted env t = (case abort_at env of None \<Rightarrow> False | Some k \<Rightarrow> k \<le> t)"

text \<open>Reading \<^verbatim>\<open>controller.signal.aborted\<close>.\<close>

definition signal_aborted :: "environment \<Rightarrow> run \<Rightarrow> bool \<times> run" where
  "signal_aborted env x =
     (token_aborted env (clock x), emit (ReadAborted (token_aborted env (clock x))) x)"

text \<open>Statement sequencing: the next statement runs only after a normal completion.\<close>

definition and_then :: "flow \<times> run \<Rightarrow> (run \<Rightarrow> flow \<times> run) \<Rightarrow> flow \<times> run" where
  "and_then r k = (case r of (Normal, x) \<Rightarrow> k x | (f, x) \<Rightarrow> (f, x))"

fun is_prefix :: "string \<Rightarrow> string \<Rightarrow> bool" where
  "is_prefix [] s = True"
| "is_prefix (c # cs) [] = False"
| "is_prefix (c # cs) (d # ds) = (c = d \<and> is_prefix cs ds)"

text \<open>\<^verbatim>\<open>s.includes(sub)\<close>\<close>

fun str_includes :: "string \<Rightarrow> string \<Rightarrow> bool" where
  "str_includes [] sub = is_prefix sub []"
| "str_includes (c # cs) sub = (is_prefix sub (c # cs) \<or> str_includes cs sub)"

subsection \<open>The body of the loop\<close>

text \<open>Lines 86 to 93: the branch of status 202.\<close>

definition pending_branch :: "environment \<Rightarrow> run \<Rightarrow> flow \<times> run" where
  "pending_branch env x0 =
     (let (aborted1, x1) = signal_aborted env x0 in
      if aborted1 then (Returns, x1)
      else
        (let x2 = await (Sleep In202Branch POLL_INTERVAL_MS) x1;
             (aborted2, x3) = signal_aborted env x2
         in if aborted2 then (Returns, x3) else (Continues, x3)))"

text \<open>Lines 97 to 100: a rejected \<^verbatim>\<open>response.json()\<close> is caught and read as \<^verbatim>\<open>null\<close>.\<close>

definition not_ok_branch :: "response \<Rightarrow> run \<Rightarrow> flow \<times> run" where
  "not_ok_branch r x0 =
     (let x1 = await ReadJson x0;
          payload = (case json_read r of Rejected \<Rightarrow> JNull | Fulfilled j \<Rightarrow> j);
          message = or_else (field payload ''error'') (JString ''Processing failed.'');
          x2 = emit (SetErrorMessage (Some message)) x1;
          x3 = emit (SetStatus Error) x2
      in (Returns, x3))"

text \<open>Lines 106 to 109.\<close>

definition json_branch :: "response \<Rightarrow> run \<Rightarrow> flow \<times> run" where
  "json_branch r x0 =
     (let x1 = await ReadJson x0 in
      case json_read r of
        Rejected \<Rightarrow> (Throws, x1)
      | Fulfilled payload \<Rightarrow>
          (let message = or_else (field payload ''error'') (JString ''Processing failed.'');
               x2 = emit (SetErrorMessage (Some message)) x1;
               x3 = emit (SetStatus Error) x2
           in (Returns, x3)))"

text \<open>Lines 114 to 116.\<close>

definition empty_branch :: "run \<Rightarrow> flow \<times> run" where
  "empty_branch x0 =
     (let x1 = emit (SetErrorMessage (Some (JString ''Received an empty file.''))) x0;
          x2 = emit (SetStatus Error) x1
      in (Returns, x2))"

text \<open>Lines 79 to 124: the \<^verbatim>\<open>try\<close> block.\<close>

definition try_block :: "environment \<Rightarrow> string \<Rightarrow> nat \<Rightarrow> run \<Rightarrow> flow \<times> run" where
  "try_block env taskId attempt x0 =
     (let x1 = await (Fetch (''/api/result/'' @ taskId)) x0 in
      case fetch_result env attempt of
        Rejected \<Rightarrow> (Throws, x1)
      | Fulfilled r \<Rightarrow>
          and_then (if status_code r = 202 then pending_branch env x1 else (Normal, x1)) (\<lambda>x2.
          and_then (if \<not> ok r then not_ok_branch r x2 else (Normal, x2)) (\<lambda>x3.
          let contentType = (case content_type r of None \<Rightarrow> [] | Some c \<Rightarrow> c) in
          and_then (if str_includes contentType ''application/json''
                    then json_branch r x3 else (Normal, x3)) (\<lambda>x4.
          let x5 = await ReadBlob x4 in
          case blob_read r of
            Rejected \<Rightarrow> (Throws, x5)
          | Fulfilled b \<Rightarrow>
              and_then (if length (bytes b) = 0 then empty_branch x5 else (Normal, x5)) (\<lambda>x6.
              let x7 = emit (SetResultUrl b) x6;
                  x8 = emit (SetStatus Success) x7
              in (Returns, x8))))))"

text \<open>Lines 125 to 133: the \<^verbatim>\<open>catch\<close> block.\<close>

definition catch_block :: "environment \<Rightarrow> run \<Rightarrow> flow \<times> run" where
  "catch_block env x0 =
     (let (aborted1, x1) = signal_aborted env x0 in
      if aborted1 then (Returns, x1)
      else
        (let x2 = emit (ConsoleError ''Polling failed:'') x1;
             x3 = emit (SetErrorMessage (Some (JString ''Lost connection to the processor.''))) x2;
             x4 = emit (SetStatus Error) x3
         in (Returns, x4)))"

definition try_catch :: "environment \<Rightarrow> string \<Rightarrow> nat \<Rightarrow> run \<Rightarrow> flow \<times> run" where
  "try_catch env taskId attempt x0 =
     (case try_block env taskId attempt x0 of
        (Throws, x1) \<Rightarrow> catch_block env x1
      | (f, x1) \<Rightarrow> (f, x1))"

text \<open>Lines 135 to 143: the statements after the \<^verbatim>\<open>try\<close>/\<^verbatim>\<open>catch\<close>.\<close>

definition trailing_block :: "environment \<Rightarrow> nat \<Rightarrow> run \<Rightarrow> flow \<times> run" where
  "trailing_block env attempt x0 =
     (if attempt < MAX_POLLS - 1 then
        (let (aborted1, x1) = signal_aborted env x0 in
         if aborted1 then (Returns, x1)
         else
           (let x2 = await (Sleep AfterTryCatch POLL_INTERVAL_MS) x1;
                (aborted2, x3) = signal_aborted env x2
            in if aborted2 then (Returns, x3) else (Normal, x3)))
      else (Normal, x0))"

text \<open>Lines 74 to 143: one iteration.\<close>

definition loop_body :: "environment \<Rightarrow> string \<Rightarrow> nat \<Rightarrow> run \<Rightarrow> flow \<times> run" where
  "loop_body env taskId attempt x0 =
     (let (aborted1, x1) = signal_aborted env x0 in
      if aborted1 then (Returns, x1)
      else and_then (try_catch env taskId attempt x1) (trailing_block env attempt))"

text \<open>
  Lines 73 to 144: the \<^verbatim>\<open>for\<close> loop. A \<^verbatim>\<open>continue\<close> and a normal end of the body both
  go on with \<open>attempt + 1\<close>.
\<close>

function for_loop :: "environment \<Rightarrow> string \<Rightarrow> nat \<Rightarrow> run \<Rightarrow> flow \<times> run" where
  "for_loop env taskId attempt x =
     (if attempt < MAX_POLLS then
        (case loop_body env taskId attempt x of
           (Returns, x') \<Rightarrow> (Returns, x')
         | (Throws, x') \<Rightarrow> (Throws, x')
         | (Normal, x') \<Rightarrow> for_loop env taskId (attempt + 1) x'
         | (Continues, x') \<Rightarrow> for_loop env taskId (attempt + 1) x')
      else (Normal, x))"
  by pat_completeness auto
termination
  by (relation "measure (\<lambda>(env, taskId, attempt, x). MAX_POLLS - attempt)") auto

declare for_loop.simps [simp del]

text \<open>Lines 146 to 149: the statements after the loop.\<close>

definition after_loop :: "environment \<Rightarrow> run \<Rightarrow> run" where
  "after_loop env x0 =
     (let (aborted1, x1) = signal_aborted env x0 in
      if aborted1 then x1
      else
        (let x2 = emit (SetErrorMessage (Some (JString ''Timed out while waiting for the model.''))) x1;
             x3 = emit (SetStatus Error) x2
         in x3))"

text \<open>
  Lines 73 to 149 of \<^verbatim>\<open>pollForResult\<close>, run from time 0 with an empty trace. (Lines 69 to
  71, which replace the controller, are \<open>start_poll\<close> below.)
\<close>

definition pollForResult :: "environment \<Rightarrow> string \<Rightarrow> run" where
  "pollForResult env taskId =
     (case for_loop env taskId 0 \<lparr>trace = [], clock = 0\<rparr> of
        (Normal, x) \<Rightarrow> after_loop env x
      | (f, x) \<Rightarrow> x)"

text \<open>
  The state updates of a trace that happen while the token reads as aborted; \<open>t\<close> is the
  time at the head of the trace.
\<close>

fun is_await :: "event \<Rightarrow> bool" where
  "is_await (Fetch u) = True"
| "is_await ReadJson = True"
| "is_await ReadBlob = True"
| "is_await (Sleep w ms) = True"
| "is_await e = False"

fun is_mutation :: "event \<Rightarrow> bool" where
  "is_mutation (SetErrorMessage m) = True"
| "is_mutation (SetStatus st) = True"
| "is_mutation (SetResultUrl b) = True"
| "is_mutation e = False"

fun late_mutations :: "environment \<Rightarrow> nat \<Rightarrow> event list \<Rightarrow> event list" where
  "late_mutations env t [] = []"
| "late_mutations env t (e # es) =
     (if is_await e then late_mutations env (Suc t) es
      else if is_mutation e \<and> token_aborted env t then e # late_mutations env t es
      else late_mutations env t es)"

fun is_sleep :: "event \<Rightarrow> bool" where
  "is_sleep (Sleep w ms) = True"
| "is_sleep e = False"

fun is_fetch :: "event \<Rightarrow> bool" where
  "is_fetch (Fetch u) = True"
| "is_fetch e = False"

section \<open>The page component (page.tsx): state, handlers, effects\<close>

record File =
  file_name :: string
  file_type :: string
  file_bytes :: "byte list"

text \<open>
  Object URLs and abort controllers are numbered in the order in which they are created.
  An object URL is made for the preview of the selected file or for a result.
\<close>

type_synonym url = nat

type_synonym controller = nat

datatype kind = Preview | Result

text \<open>
  The state of the component (lines 14 to 19), and the part of the browser that it acts
  upon: \<open>created\<close> holds the kind of every object URL made by \<^verbatim>\<open>URL.createObjectURL\<close>
  (the URL itself is the position), \<open>revoked\<close> logs every call of
  \<^verbatim>\<open>URL.revokeObjectURL\<close>, \<open>controllers\<close> counts the abort controllers made, and
  \<open>aborted\<close> holds those whose \<^verbatim>\<open>abort()\<close> was called.
\<close>

record session =
  selectedFile :: "File option"
  previewUrl :: "url option"
  resultUrl :: "url option"
  status :: Status
  errorMessage :: "json option"
  pollControllerRef :: "controller option"
  created :: "kind list"
  revoked :: "url list"
  controllers :: nat
  aborted :: "controller set"

definition initial :: session where
  "initial = \<lparr>selectedFile = None, previewUrl = None, resultUrl = None, status = Idle,
     errorMessage = None, pollControllerRef = None, created = [], revoked = [],
     controllers = 0, aborted = {}\<rparr>"

text \<open>Lines 22 to 26.\<close>

definition resetObjectUrl :: "url option \<Rightarrow> session \<Rightarrow> session" where
  "resetObjectUrl u s = (case u of None \<Rightarrow> s | Some v \<Rightarrow> s\<lparr>revoked := revoked s @ [v]\<rparr>)"

text \<open>\<^verbatim>\<open>URL.createObjectURL\<close>: the new URL, and the browser that holds it.\<close>

definition createObjectURL :: "kind \<Rightarrow> session \<Rightarrow> url \<times> session" where
  "createObjectURL k s = (length (created s), s\<lparr>created := created s @ [k]\<rparr>)"

text \<open>\<^verbatim>\<open>pollControllerRef.current?.abort()\<close>\<close>

definition abort_current :: "session \<Rightarrow> session" where
  "abort_current s =
     (case pollControllerRef s of None \<Rightarrow> s | Some c \<Rightarrow> s\<lparr>aborted := insert c (aborted s)\<rparr>)"

text \<open>\<^verbatim>\<open>setResultUrl((prev) => { resetObjectUrl(prev); return null; })\<close>\<close>

definition clear_result :: "session \<Rightarrow> session" where
  "clear_result s = (resetObjectUrl (resultUrl s) s)\<lparr>resultUrl := None\<rparr>"

text \<open>Lines 46 to 66.\<close>

definition handleFileChange :: "File option \<Rightarrow> session \<Rightarrow> session" where
  "handleFileChange f s0 =
     (let s1 = s0\<lparr>errorMessage := None\<rparr>;
          s2 = s1\<lparr>status := Idle\<rparr>;
          s3 = abort_current s2
      in case f of
           None \<Rightarrow>
             (let s4 = s3\<lparr>selectedFile := None\<rparr>;
                  s5 = resetObjectUrl (previewUrl s0) s4
              in s5\<lparr>previewUrl := None\<rparr>)
         | Some chosen \<Rightarrow>
             (let s4 = resetObjectUrl (previewUrl s0) s3;
                  (nextPreviewUrl, s5) = createObjectURL Preview s4;
                  s6 = s5\<lparr>previewUrl := Some nextPreviewUrl\<rparr>;
                  s7 = s6\<lparr>selectedFile := Some chosen\<rparr>
              in clear_result s7))"

text \<open>Lines 69 to 71: the loop takes a new controller and aborts the one before.\<close>

definition start_poll :: "session \<Rightarrow> session" where
  "start_poll s0 =
     (let c = controllers s0;
          s1 = s0\<lparr>controllers := Suc (controllers s0)\<rparr>;
          s2 = abort_current s1
      in s2\<lparr>pollControllerRef := Some c\<rparr>)"

text \<open>
  The state updates of the loop, applied to the state; line 119 to 122 revoke the result
  handle before and make the new one.
\<close>

fun apply_event :: "event \<Rightarrow> session \<Rightarrow> session" where
  "apply_event (SetErrorMessage m) s = s\<lparr>errorMessage := m\<rparr>"
| "apply_event (SetStatus st) s = s\<lparr>status := st\<rparr>"
| "apply_event (SetResultUrl b) s =
     (let s1 = resetObjectUrl (resultUrl s) s;
          (u, s2) = createObjectURL Result s1
      in s2\<lparr>resultUrl := Some u\<rparr>)"
| "apply_event e s = s"

fun apply_events :: "event list \<Rightarrow> session \<Rightarrow> session" where
  "apply_events [] s = s"
| "apply_events (e # es) s = apply_events es (apply_event e s)"

text \<open>
  Lines 152 to 173 of \<^verbatim>\<open>handleSubmit\<close>, up to its \<^verbatim>\<open>await fetch("/api/analyze")\<close>. The
  second component is the file posted by that call, \<open>None\<close> when no call is made.
\<close>

definition handleSubmit :: "session \<Rightarrow> session \<times> File option" where
  "handleSubmit s0 =
     (case selectedFile s0 of
        None \<Rightarrow>
          (s0\<lparr>errorMessage := Some (JString ''Please choose an image before checking.'')\<rparr>, None)
      | Some chosen \<Rightarrow>
          (let s1 = s0\<lparr>errorMessage := None\<rparr>;
               s2 = s1\<lparr>status := Uploading\<rparr>;
               s3 = clear_result s2
           in (s3, Some chosen)))"

text \<open>
  Lines 174 to 194: the rest of \<^verbatim>\<open>handleSubmit\<close>, once the call has settled. A rejected
  \<^verbatim>\<open>response.json()\<close> is caught and read as \<^verbatim>\<open>null\<close>.
\<close>

definition handleSubmit_settled :: "response settled \<Rightarrow> session \<Rightarrow> session" where
  "handleSubmit_settled outcome s0 =
     (case outcome of
        Rejected \<Rightarrow>
          (let s1 = s0\<lparr>errorMessage := Some (JString ''Upload failed. Please try again.'')\<rparr>
           in s1\<lparr>status := Error\<rparr>)
      | Fulfilled r \<Rightarrow>
          (let payload = (case json_read r of Rejected \<Rightarrow> JNull | Fulfilled j \<Rightarrow> j) in
           if \<not> ok r then
             (let message = or_else (field payload ''error'') (JString ''Unable to contact the model.'');
                  s1 = s0\<lparr>errorMessage := Some message\<rparr>
              in s1\<lparr>status := Error\<rparr>)
           else if \<not> truthy (field payload ''taskId'') then
             (let s1 = s0\<lparr>errorMessage := Some (JString ''Missing task information from the backend.'')\<rparr>
              in s1\<lparr>status := Error\<rparr>)
           else start_poll (s0\<lparr>status := Processing\<rparr>)))"

text \<open>Lines 197 to 211. (The file input element is not part of the state.)\<close>

definition handleReset :: "session \<Rightarrow> session" where
  "handleReset s0 =
     (let s1 = s0\<lparr>selectedFile := None\<rparr>;
          s2 = resetObjectUrl (previewUrl s0) s1;
          s3 = s2\<lparr>previewUrl := None\<rparr>;
          s4 = clear_result s3;
          s5 = s4\<lparr>errorMessage := None\<rparr>;
          s6 = s5\<lparr>status := Idle\<rparr>
      in abort_current s6)"

text \<open>
  Lines 28 to 38: the effects on \<^verbatim>\<open>previewUrl\<close> and \<^verbatim>\<open>resultUrl\<close>. When a handler has changed
  one of them, the cleanup of the effect runs with the value of the last render.
\<close>

definition run_cleanups :: "session \<Rightarrow> session \<Rightarrow> session" where
  "run_cleanups rendered s0 =
     (let s1 = (if previewUrl s0 \<noteq> previewUrl rendered
                then resetObjectUrl (previewUrl rendered) s0 else s0);
          s2 = (if resultUrl s0 \<noteq> resultUrl rendered
                then resetObjectUrl (resultUrl rendered) s1 else s1)
      in s2)"

text \<open>Lines 28 to 44 when the component is removed: the three cleanups run.\<close>

definition unmount :: "session \<Rightarrow> session" where
  "unmount s0 =
     (let s1 = resetObjectUrl (previewUrl s0) s0;
          s2 = resetObjectUrl (resultUrl s0) s1
      in abort_current s2)"

text \<open>
  What can happen to the mounted component: a change of the file input, a submission of
  the form, the upload settling, state updates of a poll loop between two of its awaits,
  and a click on Reset. After each, the component renders and the cleanups run.
\<close>

datatype action =
    FileChange "File option"
  | Submit
  | UploadSettled "response settled"
  | PollEmits "event list"
  | Reset

fun handler :: "action \<Rightarrow> session \<Rightarrow> session" where
  "handler (FileChange f) s = handleFileChange f s"
| "handler Submit s = fst (handleSubmit s)"
| "handler (UploadSettled outcome) s = handleSubmit_settled outcome s"
| "handler (PollEmits es) s = apply_events es s"
| "handler Reset s = handleReset s"

definition step :: "action \<Rightarrow> session \<Rightarrow> session" where
  "step a s = run_cleanups s (handler a s)"

fun run_actions :: "action list \<Rightarrow> session \<Rightarrow> session" where
  "run_actions [] s = s"
| "run_actions (a # as) s = run_actions as (step a s)"

text \<open>The object URLs of a kind that were made and never revoked.\<close>

definition outstanding :: "kind \<Rightarrow> session \<Rightarrow> url list" where
  "outstanding k s =
     filter (\<lambda>u. created s ! u = k \<and> u \<notin> set (revoked s)) [0..<length (created s)]"

text \<open>How often \<^verbatim>\<open>URL.revokeObjectURL\<close> was called on an object URL.\<close>

definition revocations :: "url \<Rightarrow> session \<Rightarrow> nat" where
  "revocations u s = count_list (revoked s) u"

section \<open>The upload route (the POST handler of /api/analyze)\<close>

text \<open>What \<^verbatim>\<open>formData.get("image")\<close> returns: \<^verbatim>\<open>null\<close>, a string, or a \<^verbatim>\<open>File\<close>.\<close>

datatype form_entry = Missing | Text string | Upload File


text \<open>
  The response that the handler returns: its status, and the value that
  \<^verbatim>\<open>NextResponse.json\<close> was given for the body.
\<close>

record route_response =
  http_status :: nat
  body :: json










section \<open>Notions used in the statements\<close>

text \<open>A run that has not performed the sleep of line 139.\<close>

definition quiet :: "nat \<Rightarrow> run \<Rightarrow> bool" where
  "quiet ms x = (Sleep AfterTryCatch ms \<notin> set (trace x))"

text \<open>What one iteration does when the reply is 202 and the token is live.\<close>

definition pending_round :: "string \<Rightarrow> event list" where
  "pending_round taskId =
     [ReadAborted False, Fetch (''/api/result/'' @ taskId), ReadAborted False,
      Sleep In202Branch POLL_INTERVAL_MS, ReadAborted False]"

text \<open>
  A reply with a JSON body: the status, the text of the body (of ASCII characters), and
  the value that the text is read as.
\<close>

definition ascii :: "string \<Rightarrow> byte list" where
  "ascii s = map (\<lambda>c. of_nat (of_char c)) s"

definition json_reply :: "nat \<Rightarrow> string \<Rightarrow> json \<Rightarrow> response" where
  "json_reply st body_text v = \<lparr>status_code = st, content_type = Some ''application/json'',
     json_read = Fulfilled v,
     blob_read = Fulfilled \<lparr>bytes = ascii body_text, mime = ''application/json''\<rparr>\<rparr>"

text \<open>A backend that answers every query with 202, and a token that is never cancelled.\<close>

definition processing_reply :: response where
  \<open>processing_reply =
     json_reply 202 ''{"status":"processing"}'' (JObject [(''status'', JString ''processing'')])\<close>

definition always_202 :: environment where
  "always_202 = \<lparr>abort_at = None, fetch_result = (\<lambda>n. Fulfilled processing_reply)\<rparr>"

text \<open>
  A reply of status 500, and a token that is cancelled while the loop awaits the body of
  that reply: the read of the body is aborted and rejects.
\<close>

definition error_reply :: response where
  "error_reply = \<lparr>status_code = 500, content_type = Some ''application/json'',
     json_read = Rejected, blob_read = Rejected\<rparr>"

definition cancelled_during_error_body :: environment where
  "cancelled_during_error_body =
     \<lparr>abort_at = Some 2, fetch_result = (\<lambda>n. Fulfilled error_reply)\<rparr>"

text \<open>A backend that gives the same reply to every query, and a token that is never cancelled.\<close>

definition answers :: "response \<Rightarrow> environment" where
  "answers r = \<lparr>abort_at = None, fetch_result = (\<lambda>n. Fulfilled r)\<rparr>"

text \<open>
  Replies with status 200 and a body of type \<^verbatim>\<open>image/png\<close>, of ten bytes and of none (the
  bytes are no JSON text); and replies with status 200 and the JSON bodies
  \<^verbatim>\<open>{"error":"bad input"}\<close>, \<^verbatim>\<open>{"error":42}\<close> and \<^verbatim>\<open>{"error":""}\<close>.
\<close>

definition ten_bytes :: "byte list" where
  "ten_bytes = [137, 80, 78, 71, 13, 10, 26, 10, 0, 0]"

definition png_reply :: response where
  "png_reply = \<lparr>status_code = 200, content_type = Some ''image/png'',
     json_read = Rejected, blob_read = Fulfilled \<lparr>bytes = ten_bytes, mime = ''image/png''\<rparr>\<rparr>"

definition empty_reply :: response where
  "empty_reply = \<lparr>status_code = 200, content_type = Some ''image/png'',
     json_read = Rejected, blob_read = Fulfilled \<lparr>bytes = [], mime = ''image/png''\<rparr>\<rparr>"

definition bad_input_reply :: response where
  \<open>bad_input_reply =
     json_reply 200 ''{"error":"bad input"}'' (JObject [(''error'', JString ''bad input'')])\<close>

definition numeric_error_reply :: response where
  \<open>numeric_error_reply =
     json_reply 200 ''{"error":42}'' (JObject [(''error'', JNumber (Finite 42))])\<close>

definition blank_error_reply :: response where
  \<open>blank_error_reply = json_reply 200 ''{"error":""}'' (JObject [(''error'', JString [])])\<close>

text \<open>The part of the state that the handles live in.\<close>

definition handles :: "session \<Rightarrow> url option \<times> url option \<times> kind list \<times> url list" where
  "handles s = (previewUrl s, resultUrl s, created s, revoked s)"

fun opt :: "'a option \<Rightarrow> 'a list" where
  "opt None = []"
| "opt (Some x) = [x]"

text \<open>
  The invariant of the handles. The handle in \<^verbatim>\<open>previewUrl\<close> was made for a preview and was
  never revoked, and likewise the one in \<^verbatim>\<open>resultUrl\<close>; only handles that were made are
  revoked; every handle that is no longer in the state was revoked twice, but for the
  handles in \<open>pend\<close>, which a handler has replaced in the current update: they were revoked
  once and await the cleanup of their effect.
\<close>

fun handles_ok :: "url set \<Rightarrow> url option \<times> url option \<times> kind list \<times> url list \<Rightarrow> bool" where
  "handles_ok pend (p, r, c, v) =
     ((\<forall>u. p = Some u \<longrightarrow> u < length c \<and> c ! u = Preview \<and> u \<notin> set v) \<and>
      (\<forall>u. r = Some u \<longrightarrow> u < length c \<and> c ! u = Result \<and> u \<notin> set v) \<and>
      (\<forall>u \<in> set v. u < length c) \<and>
      (\<forall>u < length c. p \<noteq> Some u \<longrightarrow> r \<noteq> Some u \<longrightarrow> u \<notin> pend \<longrightarrow> count_list v u = 2) \<and>
      (\<forall>u \<in> pend. u < length c \<and> p \<noteq> Some u \<and> r \<noteq> Some u \<and> count_list v u = 1))"

declare handles_ok.simps [simp del]

text \<open>
  A selected file, the reply of \<^verbatim>\<open>/api/analyze\<close> that starts a task, and the actions of a
  session up to a result: the file is selected and submitted, the upload is accepted, and
  the poll loop receives ten bytes of type \<^verbatim>\<open>image/png\<close>.
\<close>

definition photo :: File where
  "photo = \<lparr>file_name = ''photo.png'', file_type = ''image/png'', file_bytes = [137, 80, 78, 71]\<rparr>"

definition accepted_reply :: response where
  \<open>accepted_reply = json_reply 202 ''{"taskId":"t1"}'' (JObject [(''taskId'', JString ''t1'')])\<close>

definition until_success :: "action list" where
  "until_success =
     [FileChange (Some photo), Submit, UploadSettled (Fulfilled accepted_reply),
      PollEmits (filter is_mutation (trace (pollForResult (answers png_reply) ''t1'')))]"











text \<open>
  A run whose clock counts the awaits of its trace and which has made no state update
  while the token read as aborted.
\<close>

definition silent :: "environment \<Rightarrow> run \<Rightarrow> bool" where
  "silent env x =
     (clock x = length (filter is_await (trace x)) \<and> late_mutations env 0 (trace x) = [])"

text \<open>The state updates that one run of the loop can make: none, a failure, or a success.\<close>

fun loop_updates :: "event list \<Rightarrow> bool" where
  "loop_updates [] = True"
| "loop_updates [SetErrorMessage (Some m), SetStatus Error] = True"
| "loop_updates [SetResultUrl b, SetStatus Success] = True"
| "loop_updates es = False"

definition updates :: "run \<Rightarrow> event list" where
  "updates x = filter is_mutation (trace x)"

fun well_formed :: "action \<Rightarrow> bool" where
  "well_formed (PollEmits es) = loop_updates es"
| "well_formed a = True"

text \<open>A state in which a status \<^verbatim>\<open>success\<close> comes with a result handle.\<close>

definition success_has_result :: "session \<Rightarrow> bool" where
  "success_has_result s = (status s = Success \<longrightarrow> resultUrl s \<noteq> None)"

section \<open>Properties of the poll loop\<close>

subsection \<open>Control flow of one iteration\<close>

lemma and_then_Normal: "and_then (Normal, x) k = k x"
  by (simp add: and_then_def)

lemma and_then_abrupt: "fst r \<noteq> Normal \<Longrightarrow> and_then r k = r"
  by (cases r; cases "fst r") (auto simp: and_then_def)

lemma pending_branch_flow: "fst (pending_branch env x) \<noteq> Normal"
  by (simp add: pending_branch_def signal_aborted_def Let_def split_def)

lemma not_ok_branch_flow: "fst (not_ok_branch r x) = Returns"
  by (simp add: not_ok_branch_def Let_def)

lemma json_branch_flow: "fst (json_branch r x) \<noteq> Normal"
  by (simp add: json_branch_def Let_def split: settled.splits)

lemma empty_branch_flow: "fst (empty_branch x) = Returns"
  by (simp add: empty_branch_def Let_def)

text \<open>The \<^verbatim>\<open>try\<close> block, branch by branch.\<close>

lemma try_block_rejected:
  "fetch_result env attempt = Rejected \<Longrightarrow>
   try_block env taskId attempt x = (Throws, await (Fetch (''/api/result/'' @ taskId)) x)"
  by (simp add: try_block_def Let_def)

lemma try_block_202:
  "fetch_result env attempt = Fulfilled r \<Longrightarrow> status_code r = 202 \<Longrightarrow>
   try_block env taskId attempt x = pending_branch env (await (Fetch (''/api/result/'' @ taskId)) x)"
  by (simp add: try_block_def Let_def and_then_abrupt pending_branch_flow)

lemma try_block_not_ok:
  "fetch_result env attempt = Fulfilled r \<Longrightarrow> status_code r \<noteq> 202 \<Longrightarrow> \<not> ok r \<Longrightarrow>
   try_block env taskId attempt x = not_ok_branch r (await (Fetch (''/api/result/'' @ taskId)) x)"
  by (simp add: try_block_def Let_def and_then_abrupt and_then_Normal not_ok_branch_flow)

lemma try_block_json:
  "fetch_result env attempt = Fulfilled r \<Longrightarrow> status_code r \<noteq> 202 \<Longrightarrow> ok r \<Longrightarrow>
   str_includes (case content_type r of None \<Rightarrow> [] | Some c \<Rightarrow> c) ''application/json'' \<Longrightarrow>
   try_block env taskId attempt x = json_branch r (await (Fetch (''/api/result/'' @ taskId)) x)"
  by (simp add: try_block_def Let_def and_then_abrupt and_then_Normal json_branch_flow)

lemma try_block_blob:
  "fetch_result env attempt = Fulfilled r \<Longrightarrow> status_code r \<noteq> 202 \<Longrightarrow> ok r \<Longrightarrow>
   \<not> str_includes (case content_type r of None \<Rightarrow> [] | Some c \<Rightarrow> c) ''application/json'' \<Longrightarrow>
   try_block env taskId attempt x =
     (let x5 = await ReadBlob (await (Fetch (''/api/result/'' @ taskId)) x) in
      case blob_read r of
        Rejected \<Rightarrow> (Throws, x5)
      | Fulfilled b \<Rightarrow>
          if bytes b = [] then empty_branch x5
          else (Returns, emit (SetStatus Success) (emit (SetResultUrl b) x5)))"
  by (simp add: try_block_def Let_def and_then_abrupt and_then_Normal empty_branch_flow
      split: settled.splits)

lemma response_cases:
  obtains "status_code r = 202"
  | "status_code r \<noteq> 202" "\<not> ok r"
  | "status_code r \<noteq> 202" "ok r"
    "str_includes (case content_type r of None \<Rightarrow> [] | Some c \<Rightarrow> c) ''application/json''"
  | "status_code r \<noteq> 202" "ok r"
    "\<not> str_includes (case content_type r of None \<Rightarrow> [] | Some c \<Rightarrow> c) ''application/json''"
  by blast

lemma try_block_not_normal: "fst (try_block env taskId attempt x) \<noteq> Normal"
proof (cases "fetch_result env attempt")
  case Rejected
  then show ?thesis by (simp add: try_block_rejected)
next
  case (Fulfilled r)
  show ?thesis
  proof (cases r rule: response_cases)
    case 1
    with Fulfilled show ?thesis by (simp add: try_block_202 pending_branch_flow)
  next
    case 2
    with Fulfilled show ?thesis by (simp add: try_block_not_ok not_ok_branch_flow)
  next
    case 3
    with Fulfilled show ?thesis by (simp add: try_block_json json_branch_flow)
  next
    case 4
    with Fulfilled show ?thesis
      by (simp add: try_block_blob Let_def empty_branch_flow split: settled.splits)
  qed
qed

lemma catch_block_flow: "fst (catch_block env x) = Returns"
  by (simp add: catch_block_def signal_aborted_def Let_def split_def)

lemma try_catch_flow:
  "fst (try_catch env taskId attempt x) = Returns \<or> fst (try_catch env taskId attempt x) = Continues"
proof (cases "try_block env taskId attempt x")
  case (Pair f x1)
  with try_block_not_normal [of env taskId attempt x] show ?thesis
    by (cases f) (simp_all add: try_catch_def catch_block_flow)
qed

lemma loop_body_skips_trailing:
  "loop_body env taskId attempt x =
     (if token_aborted env (clock x) then (Returns, emit (ReadAborted True) x)
      else try_catch env taskId attempt (emit (ReadAborted False) x))"
  using try_catch_flow [of env taskId attempt "emit (ReadAborted False) x"]
  by (auto simp: loop_body_def signal_aborted_def and_then_abrupt)

subsection \<open>No block but the trailing one sleeps after the try/catch\<close>

lemma quiet_emit: "e \<noteq> Sleep AfterTryCatch ms \<Longrightarrow> quiet ms (emit e x) = quiet ms x"
  by (auto simp: quiet_def emit_def)

lemma quiet_await: "e \<noteq> Sleep AfterTryCatch ms \<Longrightarrow> quiet ms (await e x) = quiet ms x"
  by (auto simp: quiet_def await_def)

lemma quiet_pending: "quiet ms (snd (pending_branch env x)) = quiet ms x"
  by (simp add: pending_branch_def signal_aborted_def Let_def split_def quiet_emit quiet_await)

lemma quiet_not_ok: "quiet ms (snd (not_ok_branch r x)) = quiet ms x"
  by (simp add: not_ok_branch_def Let_def quiet_emit quiet_await)

lemma quiet_json: "quiet ms (snd (json_branch r x)) = quiet ms x"
  by (simp add: json_branch_def Let_def quiet_emit quiet_await split: settled.splits)

lemma quiet_empty: "quiet ms (snd (empty_branch x)) = quiet ms x"
  by (simp add: empty_branch_def Let_def quiet_emit)

lemma quiet_catch: "quiet ms (snd (catch_block env x)) = quiet ms x"
  by (simp add: catch_block_def signal_aborted_def Let_def split_def quiet_emit)

lemma quiet_try_block: "quiet ms (snd (try_block env taskId attempt x)) = quiet ms x"
proof (cases "fetch_result env attempt")
  case Rejected
  then show ?thesis by (simp add: try_block_rejected quiet_await)
next
  case (Fulfilled r)
  show ?thesis
  proof (cases r rule: response_cases)
    case 1
    with Fulfilled show ?thesis by (simp add: try_block_202 quiet_pending quiet_await)
  next
    case 2
    with Fulfilled show ?thesis by (simp add: try_block_not_ok quiet_not_ok quiet_await)
  next
    case 3
    with Fulfilled show ?thesis by (simp add: try_block_json quiet_json quiet_await)
  next
    case 4
    with Fulfilled show ?thesis
      by (simp add: try_block_blob Let_def quiet_empty quiet_emit quiet_await split: settled.splits)
  qed
qed

lemma quiet_try_catch: "quiet ms (snd (try_catch env taskId attempt x)) = quiet ms x"
proof (cases "try_block env taskId attempt x")
  case (Pair f x1)
  with quiet_try_block [of ms env taskId attempt x] show ?thesis
    by (cases f) (simp_all add: try_catch_def quiet_catch)
qed

lemma quiet_loop_body: "quiet ms (snd (loop_body env taskId attempt x)) = quiet ms x"
  by (simp add: loop_body_skips_trailing quiet_emit quiet_try_catch)

lemma quiet_for_loop: "quiet ms (snd (for_loop env taskId attempt x)) = quiet ms x"
proof (induction env taskId attempt x rule: for_loop.induct)
  case (1 env taskId attempt x)
  show ?case
  proof (cases "attempt < MAX_POLLS")
    case False
    then show ?thesis by (simp add: for_loop.simps)
  next
    case True
    obtain f x' where body: "loop_body env taskId attempt x = (f, x')"
      by (cases "loop_body env taskId attempt x")
    have q: "quiet ms x' = quiet ms x"
      using quiet_loop_body [of ms env taskId attempt x] body by simp
    show ?thesis
    proof (cases f)
      case Normal
      with 1(1) [OF True body [symmetric]] True body q show ?thesis
        by (simp add: for_loop.simps [of env taskId attempt x])
    next
      case Continues
      with 1(2) [OF True body [symmetric]] True body q show ?thesis
        by (simp add: for_loop.simps [of env taskId attempt x])
    qed (use True body q in \<open>simp_all add: for_loop.simps [of env taskId attempt x]\<close>)
  qed
qed

lemma quiet_after_loop: "quiet ms (after_loop env x) = quiet ms x"
  by (simp add: after_loop_def signal_aborted_def Let_def split_def quiet_emit)

text \<open>
  Claim C10. The statements after the \<^verbatim>\<open>try\<close>/\<^verbatim>\<open>catch\<close> (lines 135 to 143) are never
  reached: the \<^verbatim>\<open>try\<close>/\<^verbatim>\<open>catch\<close> always ends in a \<^verbatim>\<open>return\<close> or a \<^verbatim>\<open>continue\<close>, never normally
  and never with an exception, so an iteration is the check of the token followed by the
  \<^verbatim>\<open>try\<close>/\<^verbatim>\<open>catch\<close> alone, and no run of the loop ever performs the sleep of line 139. The
  only sleep between two queries is the one of the 202 branch.
\<close>

theorem trailing_sleep_unreachable:
  "fst (try_catch env taskId attempt x) \<noteq> Normal
   \<and> fst (try_catch env taskId attempt x) \<noteq> Throws
   \<and> loop_body env taskId attempt x =
       (if token_aborted env (clock x) then (Returns, emit (ReadAborted True) x)
        else try_catch env taskId attempt (emit (ReadAborted False) x))
   \<and> Sleep AfterTryCatch ms \<notin> set (trace (pollForResult env taskId))"
proof -
  have "quiet ms (pollForResult env taskId)"
  proof (cases "for_loop env taskId 0 \<lparr>trace = [], clock = 0\<rparr>")
    case (Pair f x')
    have "quiet ms x'"
      using quiet_for_loop [of ms env taskId 0 "\<lparr>trace = [], clock = 0\<rparr>"] Pair
      by (simp add: quiet_def)
    with Pair show ?thesis
      by (cases f) (simp_all add: pollForResult_def quiet_after_loop)
  qed
  then show ?thesis
    using try_catch_flow [of env taskId attempt x] loop_body_skips_trailing [of env taskId attempt x]
    by (auto simp: quiet_def)
qed

subsection \<open>A backend that always answers 202\<close>

lemma loop_body_202:
  assumes "abort_at env = None" and "fetch_result env attempt = Fulfilled r" and "status_code r = 202"
  shows "loop_body env taskId attempt x =
    (Continues, x\<lparr>trace := trace x @ pending_round taskId, clock := clock x + 2\<rparr>)"
  using assms
  by (simp add: loop_body_skips_trailing try_catch_def try_block_202 pending_branch_def
      signal_aborted_def token_aborted_def emit_def await_def pending_round_def Let_def)

lemma for_loop_all_202:
  assumes live: "abort_at env = None"
    and pending: "\<And>n. \<exists>r. fetch_result env n = Fulfilled r \<and> status_code r = 202"
  shows "MAX_POLLS - attempt = n \<Longrightarrow> attempt \<le> MAX_POLLS \<Longrightarrow>
    for_loop env taskId attempt x =
      (Normal, x\<lparr>trace := trace x @ concat (replicate n (pending_round taskId)),
                  clock := clock x + 2 * n\<rparr>)"
proof (induction n arbitrary: attempt x)
  case 0
  then have "\<not> attempt < MAX_POLLS" by simp
  then show ?case by (simp add: for_loop.simps [of env taskId attempt x])
next
  case (Suc n)
  then have less: "attempt < MAX_POLLS" by simp
  obtain r where r: "fetch_result env attempt = Fulfilled r" "status_code r = 202"
    using pending by blast
  let ?x' = "x\<lparr>trace := trace x @ pending_round taskId, clock := clock x + 2\<rparr>"
  have body: "loop_body env taskId attempt x = (Continues, ?x')"
    by (rule loop_body_202 [OF live r])
  have "for_loop env taskId attempt x = for_loop env taskId (attempt + 1) ?x'"
    using less body by (simp add: for_loop.simps [of env taskId attempt x])
  also have "\<dots> = (Normal, ?x'\<lparr>trace := trace ?x' @ concat (replicate n (pending_round taskId)),
                                 clock := clock ?x' + 2 * n\<rparr>)"
    using Suc.prems by (intro Suc.IH) simp_all
  finally show ?case by simp
qed

lemma poll_all_202:
  assumes live: "abort_at env = None"
    and pending: "\<And>n. \<exists>r. fetch_result env n = Fulfilled r \<and> status_code r = 202"
  shows "pollForResult env taskId =
    \<lparr>trace = concat (replicate MAX_POLLS (pending_round taskId)) @
        [ReadAborted False, SetErrorMessage (Some (JString ''Timed out while waiting for the model.'')),
         SetStatus Error],
      clock = 2 * MAX_POLLS\<rparr>"
  using for_loop_all_202 [OF live pending, of 0 MAX_POLLS taskId "\<lparr>trace = [], clock = 0\<rparr>"] live
  by (simp add: pollForResult_def after_loop_def signal_aborted_def token_aborted_def emit_def Let_def)

lemma filter_rounds:
  "filter P (concat (replicate n xs)) = concat (replicate n (filter P xs))"
  by (induction n) simp_all

lemma length_rounds: "length (concat (replicate n xs)) = n * length xs"
  by (induction n) simp_all

text \<open>
  Claim C2, at the backend \<open>always_202\<close>. The loop makes 45 queries and then reports the
  timeout, and nothing else; each query is followed by a check of the token, a sleep of
  2000 ms and another check. But the sleep of line 89 is not guarded by the number of
  attempts left (the guard \<^verbatim>\<open>attempt < MAX_POLLS - 1\<close> stands in the unreachable lines 135 to
  143), so the loop sleeps 45 times, not 44: the events from the 45th query on are the
  query, a check, a sleep of 2000 ms, two checks and only then the timeout.
\<close>

theorem always_202_sleeps_after_last_query:
  "trace (pollForResult always_202 taskId) =
     concat (replicate 45 (pending_round taskId)) @
       [ReadAborted False, SetErrorMessage (Some (JString ''Timed out while waiting for the model.'')),
        SetStatus Error]
   \<and> length (filter is_fetch (trace (pollForResult always_202 taskId))) = 45
   \<and> length (filter is_sleep (trace (pollForResult always_202 taskId))) = 45
   \<and> drop (5 * 44) (trace (pollForResult always_202 taskId)) =
       [ReadAborted False, Fetch (''/api/result/'' @ taskId), ReadAborted False,
        Sleep In202Branch 2000, ReadAborted False,
        ReadAborted False, SetErrorMessage (Some (JString ''Timed out while waiting for the model.'')),
        SetStatus Error]"
proof -
  have run: "pollForResult always_202 taskId =
    \<lparr>trace = concat (replicate MAX_POLLS (pending_round taskId)) @
        [ReadAborted False, SetErrorMessage (Some (JString ''Timed out while waiting for the model.'')),
         SetStatus Error],
      clock = 2 * MAX_POLLS\<rparr>"
    by (rule poll_all_202) (simp_all add: always_202_def processing_reply_def json_reply_def)
  have split: "replicate 45 (pending_round taskId) =
      replicate 44 (pending_round taskId) @ [pending_round taskId]"
    using replicate_add [of 44 1 "pending_round taskId"] by simp
  have len: "length (concat (replicate 44 (pending_round taskId))) = 5 * 44"
    by (simp add: length_rounds pending_round_def)
  have "drop (5 * 44) (concat (replicate 45 (pending_round taskId)) @
       [ReadAborted False, SetErrorMessage (Some (JString ''Timed out while waiting for the model.'')),
        SetStatus Error]) = pending_round taskId @
       [ReadAborted False, SetErrorMessage (Some (JString ''Timed out while waiting for the model.'')),
        SetStatus Error]"
    unfolding split using len by simp
  then show ?thesis
    by (simp add: run MAX_POLLS_def filter_rounds length_rounds pending_round_def
        POLL_INTERVAL_MS_def)
qed

subsection \<open>Cancellation\<close>

text \<open>A token that reads as aborted at the start of an iteration stops the loop silently.\<close>

lemma cancelled_at_start_of_iteration:
  "attempt < MAX_POLLS \<Longrightarrow> token_aborted env (clock x) \<Longrightarrow>
   for_loop env taskId attempt x = (Returns, emit (ReadAborted True) x)"
  by (simp add: for_loop.simps [of env taskId attempt x] loop_body_skips_trailing)

text \<open>
  Claim C1, at the environment \<open>cancelled_during_error_body\<close>. The first query is answered
  with status 500 while the token is live (time 1). The token is cancelled while the loop
  awaits the body (line 97), so that the read rejects; the rejection is swallowed by
  \<^verbatim>\<open>.catch(() => null)\<close>, and lines 98 and 99 run with no check of the token: the loop sets the
  error message and the status at time 2, when the token reads as aborted.
\<close>

theorem cancel_during_error_body_mutates:
  "pollForResult cancelled_during_error_body taskId =
     \<lparr>trace = [ReadAborted False, Fetch (''/api/result/'' @ taskId), ReadJson,
               SetErrorMessage (Some (JString ''Processing failed.'')), SetStatus Error],
      clock = 2\<rparr>
   \<and> \<not> token_aborted cancelled_during_error_body 1
   \<and> token_aborted cancelled_during_error_body 2
   \<and> late_mutations cancelled_during_error_body 0
        (trace (pollForResult cancelled_during_error_body taskId)) =
       [SetErrorMessage (Some (JString ''Processing failed.'')), SetStatus Error]"
proof -
  have start: "\<not> token_aborted cancelled_during_error_body (clock \<lparr>trace = [], clock = 0\<rparr>)"
    by (simp add: token_aborted_def cancelled_during_error_body_def)
  have reply: "fetch_result cancelled_during_error_body 0 = Fulfilled error_reply"
    by (simp add: cancelled_during_error_body_def)
  have bad: "status_code error_reply \<noteq> 202" "\<not> ok error_reply"
    by (simp_all add: error_reply_def ok_def)
  have "loop_body cancelled_during_error_body taskId 0 \<lparr>trace = [], clock = 0\<rparr> =
      (Returns, \<lparr>trace = [ReadAborted False, Fetch (''/api/result/'' @ taskId), ReadJson,
               SetErrorMessage (Some (JString ''Processing failed.'')), SetStatus Error], clock = 2\<rparr>)"
    using start
    by (simp add: loop_body_skips_trailing try_catch_def try_block_not_ok [OF reply bad]
        not_ok_branch_def error_reply_def or_else_def emit_def await_def Let_def)
  then have "pollForResult cancelled_during_error_body taskId =
     \<lparr>trace = [ReadAborted False, Fetch (''/api/result/'' @ taskId), ReadJson,
               SetErrorMessage (Some (JString ''Processing failed.'')), SetStatus Error],
      clock = 2\<rparr>"
    by (simp add: pollForResult_def for_loop.simps [of _ _ 0] MAX_POLLS_def)
  then show ?thesis
    by (simp add: token_aborted_def cancelled_during_error_body_def)
qed

lemma late_mutations_append:
  "late_mutations env t (xs @ ys) =
     late_mutations env t xs @ late_mutations env (t + length (filter is_await xs)) ys"
  by (induction xs arbitrary: t) simp_all

lemma silent_emit:
  "silent env x \<Longrightarrow> \<not> is_await e \<Longrightarrow> \<not> is_mutation e \<or> \<not> token_aborted env (clock x) \<Longrightarrow>
   silent env (emit e x)"
  by (auto simp: silent_def emit_def late_mutations_append)

lemma silent_await: "silent env x \<Longrightarrow> is_await e \<Longrightarrow> silent env (await e x)"
  by (auto simp: silent_def await_def late_mutations_append)

lemma clock_emit [simp]: "clock (emit e x) = clock x"
  by (simp add: emit_def)

lemma clock_await [simp]: "clock (await e x) = Suc (clock x)"
  by (simp add: await_def)

lemma silent_pending:
  assumes x: "silent env x"
  shows "silent env (snd (pending_branch env x))"
proof -
  have x1: "silent env (emit (ReadAborted b) x)" for b
    by (intro silent_emit [OF x]) simp_all
  have x2: "silent env (await (Sleep In202Branch POLL_INTERVAL_MS) (emit (ReadAborted b) x))" for b
    by (intro silent_await [OF x1]) simp
  have "silent env (emit (ReadAborted c)
      (await (Sleep In202Branch POLL_INTERVAL_MS) (emit (ReadAborted b) x)))" for b c
    by (intro silent_emit [OF x2]) simp_all
  with x1 show ?thesis
    by (simp add: pending_branch_def signal_aborted_def Let_def split_def)
qed

lemma clock_pending:
  "fst (pending_branch env x) = Continues \<Longrightarrow> clock (snd (pending_branch env x)) = Suc (clock x)"
  by (simp add: pending_branch_def signal_aborted_def Let_def split_def split: if_splits)

lemma silent_json:
  assumes x: "silent env x"
    and rej: "token_aborted env (Suc (clock x)) \<Longrightarrow> json_read r = Rejected"
  shows "silent env (snd (json_branch r x))"
proof (cases "json_read r")
  case Rejected
  then show ?thesis by (simp add: json_branch_def Let_def silent_await x)
next
  case (Fulfilled payload)
  with rej have live: "\<not> token_aborted env (Suc (clock x))" by auto
  let ?x1 = "await ReadJson x"
  have x1: "silent env ?x1" by (simp add: silent_await x)
  have x2: "silent env (emit (SetErrorMessage m) ?x1)" for m
    using live by (intro silent_emit [OF x1]) simp_all
  have "silent env (emit (SetStatus Error) (emit (SetErrorMessage m) ?x1))" for m
    using live by (intro silent_emit [OF x2]) simp_all
  with Fulfilled show ?thesis by (simp add: json_branch_def Let_def)
qed

lemma silent_empty:
  assumes x: "silent env x" and live: "\<not> token_aborted env (clock x)"
  shows "silent env (snd (empty_branch x))"
proof -
  have x1: "silent env (emit (SetErrorMessage m) x)" for m
    using live by (intro silent_emit [OF x]) simp_all
  have "silent env (emit (SetStatus Error) (emit (SetErrorMessage m) x))" for m
    using live by (intro silent_emit [OF x1]) simp_all
  then show ?thesis by (simp add: empty_branch_def Let_def)
qed

lemma silent_catch:
  assumes x: "silent env x"
  shows "silent env (snd (catch_block env x))"
proof (cases "token_aborted env (clock x)")
  case True
  then show ?thesis
    by (simp add: catch_block_def signal_aborted_def silent_emit x)
next
  case False
  let ?x1 = "emit (ReadAborted False) x"
  have x1: "silent env ?x1" by (simp add: silent_emit x)
  have x2: "silent env (emit (ConsoleError ''Polling failed:'') ?x1)"
    by (intro silent_emit [OF x1]) simp_all
  have x3: "silent env (emit (SetErrorMessage m) (emit (ConsoleError ''Polling failed:'') ?x1))" for m
    using False by (intro silent_emit [OF x2]) simp_all
  have "silent env (emit (SetStatus Error)
      (emit (SetErrorMessage m) (emit (ConsoleError ''Polling failed:'') ?x1)))" for m
    using False by (intro silent_emit [OF x3]) simp_all
  with False show ?thesis
    by (simp add: catch_block_def signal_aborted_def Let_def)
qed

lemma silent_try_catch:
  assumes x: "silent env x"
    and reply: "\<And>r. fetch_result env attempt = Fulfilled r \<Longrightarrow> status_code r = 202 \<or> ok r"
    and body: "\<And>r. fetch_result env attempt = Fulfilled r \<Longrightarrow> token_aborted env (clock x + 2) \<Longrightarrow>
                json_read r = Rejected \<and> blob_read r = Rejected"
  shows "silent env (snd (try_catch env taskId attempt x))"
proof (cases "fetch_result env attempt")
  case Rejected
  then show ?thesis
    by (simp add: try_catch_def try_block_rejected silent_catch silent_await x)
next
  case (Fulfilled r)
  let ?x1 = "await (Fetch (''/api/result/'' @ taskId)) x"
  have x1: "silent env ?x1" by (simp add: silent_await x)
  show ?thesis
  proof (cases r rule: response_cases)
    case 1
    have "fst (pending_branch env ?x1) \<noteq> Throws"
      by (simp add: pending_branch_def signal_aborted_def Let_def split_def)
    then show ?thesis
      using Fulfilled 1 silent_pending [OF x1]
      by (cases "fst (pending_branch env ?x1)"; cases "pending_branch env ?x1")
        (simp_all add: try_catch_def try_block_202)
  next
    case 2
    with reply [OF Fulfilled] show ?thesis by simp
  next
    case 3
    have rej: "token_aborted env (Suc (clock ?x1)) \<Longrightarrow> json_read r = Rejected"
      using body [OF Fulfilled] by simp
    have s: "silent env (snd (json_branch r ?x1))"
      by (rule silent_json [OF x1 rej])
    show ?thesis
      using Fulfilled 3 s silent_catch [of env "snd (json_branch r ?x1)"]
      by (cases "json_branch r ?x1"; cases "fst (json_branch r ?x1)")
        (simp_all add: try_catch_def try_block_json)
  next
    case 4
    let ?x5 = "await ReadBlob ?x1"
    have x5: "silent env ?x5" by (intro silent_await [OF x1]) simp
    show ?thesis
    proof (cases "blob_read r")
      case Rejected
      with Fulfilled 4 silent_catch [OF x5] show ?thesis
        by (simp add: try_catch_def try_block_blob Let_def)
    next
      case (Fulfilled bs)
      then have live: "\<not> token_aborted env (clock ?x5)"
        using body [OF \<open>fetch_result env attempt = Fulfilled r\<close>] by auto
      have "silent env (snd (empty_branch ?x5))"
        by (rule silent_empty [OF x5 live])
      moreover have "fst (empty_branch ?x5) = Returns" by (rule empty_branch_flow)
      moreover have "silent env (emit (SetStatus Success) (emit (SetResultUrl b) ?x5))" for b
      proof -
        have x6: "silent env (emit (SetResultUrl b) ?x5)"
          using live by (intro silent_emit [OF x5]) simp_all
        show ?thesis using live by (intro silent_emit [OF x6]) simp_all
      qed
      ultimately show ?thesis
        using \<open>fetch_result env attempt = Fulfilled r\<close> 4 Fulfilled
        by (cases "empty_branch ?x5") (simp add: try_catch_def try_block_blob Let_def)
    qed
  qed
qed


lemma silent_loop_body:
  assumes x: "silent env x"
    and reply: "\<And>r. fetch_result env attempt = Fulfilled r \<Longrightarrow> status_code r = 202 \<or> ok r"
    and body: "\<And>r. fetch_result env attempt = Fulfilled r \<Longrightarrow> token_aborted env (clock x + 2) \<Longrightarrow>
                json_read r = Rejected \<and> blob_read r = Rejected"
  shows "silent env (snd (loop_body env taskId attempt x))"
proof (cases "token_aborted env (clock x)")
  case True
  then show ?thesis by (simp add: loop_body_skips_trailing silent_emit x)
next
  case False
  have x1: "silent env (emit (ReadAborted False) x)" by (simp add: silent_emit x)
  have "silent env (snd (try_catch env taskId attempt (emit (ReadAborted False) x)))"
    using reply body by (intro silent_try_catch [OF x1]) simp_all
  with False show ?thesis by (simp add: loop_body_skips_trailing)
qed

lemma clock_loop_body:
  "fst (loop_body env taskId attempt x) = Continues \<Longrightarrow>
   clock (snd (loop_body env taskId attempt x)) = clock x + 2"
proof -
  assume c: "fst (loop_body env taskId attempt x) = Continues"
  then have live: "\<not> token_aborted env (clock x)"
    by (auto simp: loop_body_skips_trailing)
  let ?x0 = "emit (ReadAborted False) x"
  from c live have tc: "fst (try_catch env taskId attempt ?x0) = Continues"
    by (simp add: loop_body_skips_trailing)
  show ?thesis
  proof (cases "fetch_result env attempt")
    case Rejected
    with tc show ?thesis
      by (simp add: try_catch_def try_block_rejected catch_block_flow)
  next
    case (Fulfilled r)
    show ?thesis
    proof (cases r rule: response_cases)
      case 1
      let ?x1 = "await (Fetch (''/api/result/'' @ taskId)) ?x0"
      have eq: "try_block env taskId attempt ?x0 = pending_branch env ?x1"
        by (rule try_block_202 [OF Fulfilled 1])
      have "fst (pending_branch env ?x1) \<noteq> Throws"
        by (simp add: pending_branch_def signal_aborted_def Let_def split_def)
      then have same: "try_catch env taskId attempt ?x0 = pending_branch env ?x1"
        unfolding try_catch_def eq
        by (cases "pending_branch env ?x1"; cases "fst (pending_branch env ?x1)") simp_all
      with tc have "fst (pending_branch env ?x1) = Continues" by simp
      from clock_pending [OF this] same live show ?thesis
        by (simp add: loop_body_skips_trailing)
    next
      case 2
      with tc Fulfilled show ?thesis
        by (simp add: try_catch_def try_block_not_ok not_ok_branch_def Let_def)
    next
      case 3
      with tc Fulfilled show ?thesis
        by (cases "json_read r")
          (simp_all add: try_catch_def try_block_json json_branch_def Let_def catch_block_flow)
    next
      case 4
      with tc Fulfilled show ?thesis
        by (cases "blob_read r")
          (simp_all add: try_catch_def try_block_blob empty_branch_def Let_def catch_block_flow
            split: if_splits)
    qed
  qed
qed

lemma silent_for_loop:
  assumes reply: "\<And>n r. fetch_result env n = Fulfilled r \<Longrightarrow> status_code r = 202 \<or> ok r"
    and body: "\<And>n r. fetch_result env n = Fulfilled r \<Longrightarrow> token_aborted env (2 * n + 2) \<Longrightarrow>
                json_read r = Rejected \<and> blob_read r = Rejected"
  shows "MAX_POLLS - attempt = k \<Longrightarrow> silent env x \<Longrightarrow> clock x = 2 * attempt \<Longrightarrow>
    silent env (snd (for_loop env taskId attempt x))"
proof (induction k arbitrary: attempt x)
  case 0
  then have "\<not> attempt < MAX_POLLS" by simp
  with 0 show ?case by (simp add: for_loop.simps [of env taskId attempt x])
next
  case (Suc k)
  then have less: "attempt < MAX_POLLS" by simp
  obtain f x' where lb: "loop_body env taskId attempt x = (f, x')"
    by (cases "loop_body env taskId attempt x")
  have x': "silent env x'"
    using silent_loop_body [OF Suc.prems(2), of attempt taskId] reply body Suc.prems(3) lb
    by simp
  have f: "f = Returns \<or> f = Continues"
    using try_catch_flow [of env taskId attempt "emit (ReadAborted False) x"] lb
    by (auto simp: loop_body_skips_trailing split: if_splits)
  then show ?case
  proof
    assume "f = Returns"
    with less lb x' show ?thesis by (simp add: for_loop.simps [of env taskId attempt x])
  next
    assume c: "f = Continues"
    then have "clock x' = 2 * (attempt + 1)"
      using clock_loop_body [of env taskId attempt x] lb Suc.prems(3) by simp
    moreover have "MAX_POLLS - (attempt + 1) = k" using Suc.prems(1) by simp
    ultimately have "silent env (snd (for_loop env taskId (attempt + 1) x'))"
      using x' by (intro Suc.IH) simp_all
    with less lb c show ?thesis by (simp add: for_loop.simps [of env taskId attempt x])
  qed
qed

lemma silent_after_loop:
  assumes x: "silent env x"
  shows "silent env (after_loop env x)"
proof (cases "token_aborted env (clock x)")
  case True
  then show ?thesis by (simp add: after_loop_def signal_aborted_def silent_emit x)
next
  case False
  have x1: "silent env (emit (ReadAborted False) x)" by (simp add: silent_emit x)
  have x2: "silent env (emit (SetErrorMessage m) (emit (ReadAborted False) x))" for m
    using False by (intro silent_emit [OF x1]) simp_all
  have "silent env (emit (SetStatus Error) (emit (SetErrorMessage m) (emit (ReadAborted False) x)))" for m
    using False by (intro silent_emit [OF x2]) simp_all
  with False show ?thesis by (simp add: after_loop_def signal_aborted_def Let_def)
qed

text \<open>
  Every other resumption is guarded. Where a body that is being read when the token is
  cancelled cannot be read, as \<^verbatim>\<open>fetch\<close> with a signal has it, and no reply has a status
  outside 200 to 299, the loop makes no state update after the cancellation.
\<close>

lemma cancellation_silent_without_error_replies:
  assumes reply: "\<And>n r. fetch_result env n = Fulfilled r \<Longrightarrow> status_code r = 202 \<or> ok r"
    and body: "\<And>n r. fetch_result env n = Fulfilled r \<Longrightarrow> token_aborted env (2 * n + 2) \<Longrightarrow>
                json_read r = Rejected \<and> blob_read r = Rejected"
  shows "late_mutations env 0 (trace (pollForResult env taskId)) = []"
proof -
  have start: "silent env \<lparr>trace = [], clock = 0\<rparr>" by (simp add: silent_def)
  have loop: "silent env (snd (for_loop env taskId 0 \<lparr>trace = [], clock = 0\<rparr>))"
    using silent_for_loop [OF reply body, where attempt = 0 and k = MAX_POLLS
        and x = "\<lparr>trace = [], clock = 0\<rparr>" and taskId = taskId] start
    by simp
  have "silent env (pollForResult env taskId)"
  proof (cases "for_loop env taskId 0 \<lparr>trace = [], clock = 0\<rparr>")
    case (Pair f x')
    with loop have "silent env x'" by simp
    with Pair show ?thesis
      by (cases f) (simp_all add: pollForResult_def silent_after_loop)
  qed
  then show ?thesis by (simp add: silent_def)
qed

subsection \<open>Replies that end the loop\<close>

lemma for_loop_blob_reply:
  "attempt < MAX_POLLS \<Longrightarrow> \<not> token_aborted env (clock x) \<Longrightarrow>
   fetch_result env attempt = Fulfilled r \<Longrightarrow> ok r \<Longrightarrow> status_code r \<noteq> 202 \<Longrightarrow>
   \<not> str_includes (case content_type r of None \<Rightarrow> [] | Some c \<Rightarrow> c) ''application/json'' \<Longrightarrow>
   blob_read r = Fulfilled b \<Longrightarrow>
   for_loop env taskId attempt x =
     (Returns,
      x\<lparr>trace := trace x @ [ReadAborted False, Fetch (''/api/result/'' @ taskId), ReadBlob] @
           (if bytes b = []
            then [SetErrorMessage (Some (JString ''Received an empty file.'')), SetStatus Error]
            else [SetResultUrl b, SetStatus Success]),
         clock := clock x + 2\<rparr>)"
  by (simp add: for_loop.simps [of env taskId attempt x] loop_body_skips_trailing try_catch_def
      try_block_blob empty_branch_def emit_def await_def Let_def)

lemma for_loop_json_reply:
  "attempt < MAX_POLLS \<Longrightarrow> \<not> token_aborted env (clock x) \<Longrightarrow>
   fetch_result env attempt = Fulfilled r \<Longrightarrow> ok r \<Longrightarrow> status_code r \<noteq> 202 \<Longrightarrow>
   str_includes (case content_type r of None \<Rightarrow> [] | Some c \<Rightarrow> c) ''application/json'' \<Longrightarrow>
   json_read r = Fulfilled payload \<Longrightarrow>
   for_loop env taskId attempt x =
     (Returns,
      x\<lparr>trace := trace x @ [ReadAborted False, Fetch (''/api/result/'' @ taskId), ReadJson,
           SetErrorMessage (Some (case field payload ''error'' of
                                    None \<Rightarrow> JString ''Processing failed.''
                                  | Some e \<Rightarrow> if truthy (Some e) then e
                                              else JString ''Processing failed.'')),
           SetStatus Error],
         clock := clock x + 2\<rparr>)"
  by (cases "field payload ''error''")
    (simp_all add: for_loop.simps [of env taskId attempt x] loop_body_skips_trailing try_catch_def
      try_block_json json_branch_def or_else_def emit_def await_def Let_def)

lemma poll_one_reply:
  "for_loop env taskId 0 \<lparr>trace = [], clock = 0\<rparr> = (Returns, x) \<Longrightarrow> pollForResult env taskId = x"
  by (simp add: pollForResult_def)

text \<open>
  Claim C5. Let an iteration start with the token live, and let the query be answered with
  a status from 200 to 299 other than 202 (which the loop has classified as still
  processing before), a content type that does not contain \<^verbatim>\<open>application/json\<close>, and a body
  that is read as the blob \<open>b\<close>. If the body has no bytes, the loop sets the error message
  \<^verbatim>\<open>Received an empty file.\<close>, which contains \<^verbatim>\<open>empty\<close>, and the status \<^verbatim>\<open>error\<close>; otherwise
  it makes the result handle of the blob \<open>b\<close> itself, with the bytes and the type of the
  body, and sets the status \<^verbatim>\<open>success\<close>. In both cases the iteration makes no other state
  update and the loop returns: it makes no further query and does not report a timeout.
\<close>

theorem binary_reply_outcome:
  "attempt < MAX_POLLS \<Longrightarrow> \<not> token_aborted env (clock x) \<Longrightarrow>
   fetch_result env attempt = Fulfilled r \<Longrightarrow> ok r \<Longrightarrow> status_code r \<noteq> 202 \<Longrightarrow>
   \<not> str_includes (case content_type r of None \<Rightarrow> [] | Some c \<Rightarrow> c) ''application/json'' \<Longrightarrow>
   blob_read r = Fulfilled b \<Longrightarrow>
   for_loop env taskId attempt x =
     (Returns,
      x\<lparr>trace := trace x @ [ReadAborted False, Fetch (''/api/result/'' @ taskId), ReadBlob] @
           (if bytes b = []
            then [SetErrorMessage (Some (JString ''Received an empty file.'')), SetStatus Error]
            else [SetResultUrl b, SetStatus Success]),
         clock := clock x + 2\<rparr>)
   \<and> str_includes ''Received an empty file.'' ''empty''"
  by (simp add: for_loop_blob_reply)

text \<open>
  Claim C5, two instances. A reply of status 200 with ten bytes of type \<^verbatim>\<open>image/png\<close> yields
  a result handle for those ten bytes and that type, and the status \<^verbatim>\<open>success\<close>. A reply of
  status 200 with no bytes yields the message \<^verbatim>\<open>Received an empty file.\<close> and the status
  \<^verbatim>\<open>error\<close>.
\<close>

theorem binary_reply_outcome_witness:
  "ok png_reply \<and> status_code png_reply = 200 \<and> content_type png_reply = Some ''image/png''
   \<and> blob_read png_reply = Fulfilled \<lparr>bytes = ten_bytes, mime = ''image/png''\<rparr>
   \<and> length ten_bytes = 10
   \<and> pollForResult (answers png_reply) ''t1'' =
       \<lparr>trace = [ReadAborted False, Fetch ''/api/result/t1'', ReadBlob,
                 SetResultUrl \<lparr>bytes = ten_bytes, mime = ''image/png''\<rparr>, SetStatus Success],
        clock = 2\<rparr>
   \<and> ok empty_reply \<and> blob_read empty_reply = Fulfilled \<lparr>bytes = [], mime = ''image/png''\<rparr>
   \<and> pollForResult (answers empty_reply) ''t1'' =
       \<lparr>trace = [ReadAborted False, Fetch ''/api/result/t1'', ReadBlob,
                 SetErrorMessage (Some (JString ''Received an empty file.'')), SetStatus Error],
        clock = 2\<rparr>"
proof -
  have full: "ten_bytes \<noteq> []" "length ten_bytes = 10"
    by (simp_all add: ten_bytes_def)
  have png: "ok png_reply" "status_code png_reply = 200" "content_type png_reply = Some ''image/png''"
    "blob_read png_reply = Fulfilled \<lparr>bytes = ten_bytes, mime = ''image/png''\<rparr>"
    by (simp_all add: png_reply_def ok_def)
  have empty: "ok empty_reply" "status_code empty_reply = 200"
    "content_type empty_reply = Some ''image/png''"
    "blob_read empty_reply = Fulfilled \<lparr>bytes = [], mime = ''image/png''\<rparr>"
    by (simp_all add: empty_reply_def ok_def)
  have live: "\<not> token_aborted (answers r) (clock \<lparr>trace = [], clock = 0\<rparr>)" for r
    by (simp add: token_aborted_def answers_def)
  have first: "(0::nat) < MAX_POLLS" by (simp add: MAX_POLLS_def)
  have reply: "fetch_result (answers r) 0 = Fulfilled r" for r
    by (simp add: answers_def)
  have "for_loop (answers png_reply) ''t1'' 0 \<lparr>trace = [], clock = 0\<rparr> =
      (Returns, \<lparr>trace = [ReadAborted False, Fetch ''/api/result/t1'', ReadBlob,
                 SetResultUrl \<lparr>bytes = ten_bytes, mime = ''image/png''\<rparr>, SetStatus Success],
        clock = 2\<rparr>)"
    using binary_reply_outcome [OF first live reply png(1) _ _ png(4), of "''t1''"] full png
    by simp
  then have a: "pollForResult (answers png_reply) ''t1'' =
       \<lparr>trace = [ReadAborted False, Fetch ''/api/result/t1'', ReadBlob,
                 SetResultUrl \<lparr>bytes = ten_bytes, mime = ''image/png''\<rparr>, SetStatus Success],
        clock = 2\<rparr>"
    by (rule poll_one_reply)
  have "for_loop (answers empty_reply) ''t1'' 0 \<lparr>trace = [], clock = 0\<rparr> =
      (Returns, \<lparr>trace = [ReadAborted False, Fetch ''/api/result/t1'', ReadBlob,
                 SetErrorMessage (Some (JString ''Received an empty file.'')), SetStatus Error],
        clock = 2\<rparr>)"
    using binary_reply_outcome [OF first live reply empty(1) _ _ empty(4), of "''t1''"] empty
    by simp
  then have b: "pollForResult (answers empty_reply) ''t1'' =
       \<lparr>trace = [ReadAborted False, Fetch ''/api/result/t1'', ReadBlob,
                 SetErrorMessage (Some (JString ''Received an empty file.'')), SetStatus Error],
        clock = 2\<rparr>"
    by (rule poll_one_reply)
  from png empty full a b show ?thesis by simp
qed

text \<open>
  Claim C6, as amended. Let an iteration start with the token live, and let the query be
  answered with a status from 200 to 299 other than 202 (which the loop has classified as
  still processing before), a content type that contains \<^verbatim>\<open>application/json\<close>, and a body
  that is read as the JSON value \<open>payload\<close>. Then the loop sets the error message to the
  \<^verbatim>\<open>error\<close> member of the body when there is one and it is truthy, whatever its type: the
  boolean \<^verbatim>\<open>true\<close>, a number other than zero, a string other than the empty one, an array or
  an object. It sets the message \<^verbatim>\<open>Processing failed.\<close> otherwise: when the body is no
  object or has no such member, and when the member is \<^verbatim>\<open>null\<close>, \<^verbatim>\<open>false\<close>, zero or the empty
  string. It sets the status \<^verbatim>\<open>error\<close>, makes no result handle and returns.
\<close>

theorem json_reply_outcome:
  "attempt < MAX_POLLS \<Longrightarrow> \<not> token_aborted env (clock x) \<Longrightarrow>
   fetch_result env attempt = Fulfilled r \<Longrightarrow> ok r \<Longrightarrow> status_code r \<noteq> 202 \<Longrightarrow>
   str_includes (case content_type r of None \<Rightarrow> [] | Some c \<Rightarrow> c) ''application/json'' \<Longrightarrow>
   json_read r = Fulfilled payload \<Longrightarrow>
   for_loop env taskId attempt x =
     (Returns,
      x\<lparr>trace := trace x @ [ReadAborted False, Fetch (''/api/result/'' @ taskId), ReadJson,
           SetErrorMessage (Some
             (case field payload ''error'' of
                None \<Rightarrow> JString ''Processing failed.''
              | Some JNull \<Rightarrow> JString ''Processing failed.''
              | Some (JBool b) \<Rightarrow> if b then JBool True else JString ''Processing failed.''
              | Some (JNumber n) \<Rightarrow> if n = Finite 0 then JString ''Processing failed.'' else JNumber n
              | Some (JString s) \<Rightarrow> if s = [] then JString ''Processing failed.'' else JString s
              | Some (JArray vs) \<Rightarrow> JArray vs
              | Some (JObject members) \<Rightarrow> JObject members)),
           SetStatus Error],
         clock := clock x + 2\<rparr>)"
  by (simp add: for_loop_json_reply split: option.splits json.splits)

text \<open>
  Claim C6, two instances: a reply of status 200 with the JSON body
  \<^verbatim>\<open>{"error":"bad input"}\<close> yields the message \<^verbatim>\<open>bad input\<close>, and one with the body
  \<^verbatim>\<open>{"error":42}\<close> yields the number 42 as the message.
\<close>

theorem json_reply_outcome_witness:
  "ok bad_input_reply \<and> content_type bad_input_reply = Some ''application/json''
   \<and> json_read bad_input_reply = Fulfilled (JObject [(''error'', JString ''bad input'')])
   \<and> pollForResult (answers bad_input_reply) ''t1'' =
       \<lparr>trace = [ReadAborted False, Fetch ''/api/result/t1'', ReadJson,
                 SetErrorMessage (Some (JString ''bad input'')), SetStatus Error],
        clock = 2\<rparr>
   \<and> ok numeric_error_reply
   \<and> json_read numeric_error_reply = Fulfilled (JObject [(''error'', JNumber (Finite 42))])
   \<and> pollForResult (answers numeric_error_reply) ''t1'' =
       \<lparr>trace = [ReadAborted False, Fetch ''/api/result/t1'', ReadJson,
                 SetErrorMessage (Some (JNumber (Finite 42))), SetStatus Error],
        clock = 2\<rparr>"
proof -
  have bad: "ok bad_input_reply" "status_code bad_input_reply = 200"
    "content_type bad_input_reply = Some ''application/json''"
    "json_read bad_input_reply = Fulfilled (JObject [(''error'', JString ''bad input'')])"
    by (simp_all add: bad_input_reply_def json_reply_def ok_def)
  have num: "ok numeric_error_reply" "status_code numeric_error_reply = 200"
    "content_type numeric_error_reply = Some ''application/json''"
    "json_read numeric_error_reply = Fulfilled (JObject [(''error'', JNumber (Finite 42))])"
    by (simp_all add: numeric_error_reply_def json_reply_def ok_def)
  have live: "\<not> token_aborted (answers r) (clock \<lparr>trace = [], clock = 0\<rparr>)" for r
    by (simp add: token_aborted_def answers_def)
  have first: "(0::nat) < MAX_POLLS" by (simp add: MAX_POLLS_def)
  have reply: "fetch_result (answers r) 0 = Fulfilled r" for r
    by (simp add: answers_def)
  have "for_loop (answers bad_input_reply) ''t1'' 0 \<lparr>trace = [], clock = 0\<rparr> =
      (Returns, \<lparr>trace = [ReadAborted False, Fetch ''/api/result/t1'', ReadJson,
                 SetErrorMessage (Some (JString ''bad input'')), SetStatus Error],
        clock = 2\<rparr>)"
    using json_reply_outcome [OF first live reply bad(1) _ _ bad(4), of "''t1''"] bad
    by simp
  then have a: "pollForResult (answers bad_input_reply) ''t1'' =
       \<lparr>trace = [ReadAborted False, Fetch ''/api/result/t1'', ReadJson,
                 SetErrorMessage (Some (JString ''bad input'')), SetStatus Error],
        clock = 2\<rparr>"
    by (rule poll_one_reply)
  have "for_loop (answers numeric_error_reply) ''t1'' 0 \<lparr>trace = [], clock = 0\<rparr> =
      (Returns, \<lparr>trace = [ReadAborted False, Fetch ''/api/result/t1'', ReadJson,
                 SetErrorMessage (Some (JNumber (Finite 42))), SetStatus Error],
        clock = 2\<rparr>)"
    using json_reply_outcome [OF first live reply num(1) _ _ num(4), of "''t1''"] num
    by simp
  then have b: "pollForResult (answers numeric_error_reply) ''t1'' =
       \<lparr>trace = [ReadAborted False, Fetch ''/api/result/t1'', ReadJson,
                 SetErrorMessage (Some (JNumber (Finite 42))), SetStatus Error],
        clock = 2\<rparr>"
    by (rule poll_one_reply)
  from bad num a b show ?thesis by simp
qed

text \<open>
  Claim C6 as stated fails where the \<^verbatim>\<open>error\<close> member is present but falsy. With status 200
  and the body \<^verbatim>\<open>{"error":""}\<close> the body has the member, yet the message is the generic one
  and not the member, since the empty string is falsy in
  \<^verbatim>\<open>payload?.error || "Processing failed."\<close>.
\<close>

theorem json_reply_counterexample:
  "ok blank_error_reply \<and> status_code blank_error_reply = 200
   \<and> content_type blank_error_reply = Some ''application/json''
   \<and> json_read blank_error_reply = Fulfilled (JObject [(''error'', JString [])])
   \<and> field (JObject [(''error'', JString [])]) ''error'' = Some (JString [])
   \<and> pollForResult (answers blank_error_reply) ''t1'' =
       \<lparr>trace = [ReadAborted False, Fetch ''/api/result/t1'', ReadJson,
                 SetErrorMessage (Some (JString ''Processing failed.'')), SetStatus Error],
        clock = 2\<rparr>
   \<and> SetErrorMessage (Some (JString []))
        \<notin> set (trace (pollForResult (answers blank_error_reply) ''t1''))"
proof -
  have blank: "ok blank_error_reply" "status_code blank_error_reply = 200"
    "content_type blank_error_reply = Some ''application/json''"
    "json_read blank_error_reply = Fulfilled (JObject [(''error'', JString [])])"
    by (simp_all add: blank_error_reply_def json_reply_def ok_def)
  have live: "\<not> token_aborted (answers r) (clock \<lparr>trace = [], clock = 0\<rparr>)" for r
    by (simp add: token_aborted_def answers_def)
  have first: "(0::nat) < MAX_POLLS" by (simp add: MAX_POLLS_def)
  have reply: "fetch_result (answers r) 0 = Fulfilled r" for r
    by (simp add: answers_def)
  have "for_loop (answers blank_error_reply) ''t1'' 0 \<lparr>trace = [], clock = 0\<rparr> =
      (Returns, \<lparr>trace = [ReadAborted False, Fetch ''/api/result/t1'', ReadJson,
                 SetErrorMessage (Some (JString ''Processing failed.'')), SetStatus Error],
        clock = 2\<rparr>)"
    using for_loop_json_reply [OF first live reply blank(1) _ _ blank(4), of "''t1''"] blank
    by simp
  then have a: "pollForResult (answers blank_error_reply) ''t1'' =
       \<lparr>trace = [ReadAborted False, Fetch ''/api/result/t1'', ReadJson,
                 SetErrorMessage (Some (JString ''Processing failed.'')), SetStatus Error],
        clock = 2\<rparr>"
    by (rule poll_one_reply)
  have "SetErrorMessage (Some (JString []))
        \<notin> set (trace (pollForResult (answers blank_error_reply) ''t1''))"
    unfolding a by simp
  with blank a show ?thesis by simp
qed

subsection \<open>The state updates of one run\<close>

lemma loop_updates_iff:
  "loop_updates es =
     (es = [] \<or> (\<exists>m. es = [SetErrorMessage (Some m), SetStatus Error]) \<or>
      (\<exists>b. es = [SetResultUrl b, SetStatus Success]))"
  by (induction es rule: loop_updates.induct) simp_all

text \<open>
  A run of the loop makes no state update, or sets an error message and the status
  \<^verbatim>\<open>error\<close>, or sets a result handle and the status \<^verbatim>\<open>success\<close>; it never does two of these.
\<close>

lemma updates_emit: "updates (emit e x) = updates x @ (if is_mutation e then [e] else [])"
  by (simp add: updates_def emit_def)

lemma updates_await: "is_await e \<Longrightarrow> updates (await e x) = updates x"
  by (cases e) (simp_all add: updates_def await_def)

lemma updates_pending: "updates (snd (pending_branch env x)) = updates x"
  by (simp add: pending_branch_def signal_aborted_def Let_def split_def updates_emit updates_await)

lemma updates_not_ok:
  "updates x = [] \<Longrightarrow> loop_updates (updates (snd (not_ok_branch r x)))"
  by (simp add: not_ok_branch_def Let_def updates_emit updates_await loop_updates_iff)

lemma updates_json:
  "updates x = [] \<Longrightarrow>
   (fst (json_branch r x) = Throws \<longrightarrow> updates (snd (json_branch r x)) = []) \<and>
   loop_updates (updates (snd (json_branch r x)))"
  by (cases "json_read r")
    (simp_all add: json_branch_def Let_def updates_emit updates_await loop_updates_iff)

lemma updates_catch:
  "updates x = [] \<Longrightarrow> loop_updates (updates (snd (catch_block env x)))"
  by (simp add: catch_block_def signal_aborted_def Let_def split_def updates_emit loop_updates_iff)

lemma updates_try_catch:
  assumes x: "updates x = []"
  shows "loop_updates (updates (snd (try_catch env taskId attempt x))) \<and>
    (fst (try_catch env taskId attempt x) = Continues \<longrightarrow>
       updates (snd (try_catch env taskId attempt x)) = [])"
proof (cases "fetch_result env attempt")
  case Rejected
  have "updates (await (Fetch (''/api/result/'' @ taskId)) x) = []"
    using x by (simp add: updates_await)
  from updates_catch [OF this] Rejected show ?thesis
    by (simp add: try_catch_def try_block_rejected catch_block_flow)
next
  case (Fulfilled r)
  let ?x1 = "await (Fetch (''/api/result/'' @ taskId)) x"
  have x1: "updates ?x1 = []" using x by (simp add: updates_await)
  show ?thesis
  proof (cases r rule: response_cases)
    case 1
    have "fst (pending_branch env ?x1) \<noteq> Throws"
      by (simp add: pending_branch_def signal_aborted_def Let_def split_def)
    then have "try_catch env taskId attempt x = pending_branch env ?x1"
      unfolding try_catch_def try_block_202 [OF Fulfilled 1]
      by (cases "pending_branch env ?x1"; cases "fst (pending_branch env ?x1)") simp_all
    then show ?thesis using x1 by (simp add: updates_pending loop_updates_iff)
  next
    case 2
    have "try_catch env taskId attempt x = not_ok_branch r ?x1"
      unfolding try_catch_def try_block_not_ok [OF Fulfilled 2]
      using not_ok_branch_flow [of r ?x1] by (cases "not_ok_branch r ?x1") simp
    then show ?thesis using updates_not_ok [OF x1, of r] by (simp add: not_ok_branch_flow)
  next
    case 3
    note u = updates_json [OF x1, of r]
    show ?thesis
    proof (cases "fst (json_branch r ?x1) = Throws")
      case True
      then have "try_catch env taskId attempt x = catch_block env (snd (json_branch r ?x1))"
        unfolding try_catch_def try_block_json [OF Fulfilled 3]
        by (cases "json_branch r ?x1") simp
      moreover have "updates (snd (json_branch r ?x1)) = []" using u True by simp
      ultimately show ?thesis using updates_catch by (simp add: catch_block_flow)
    next
      case False
      then have eq: "try_catch env taskId attempt x = json_branch r ?x1"
        unfolding try_catch_def try_block_json [OF Fulfilled 3]
        by (cases "json_branch r ?x1"; cases "fst (json_branch r ?x1)") simp_all
      have "fst (json_branch r ?x1) \<noteq> Continues"
        by (cases "json_read r") (simp_all add: json_branch_def Let_def)
      with eq u show ?thesis by simp
    qed
  next
    case 4
    let ?x5 = "await ReadBlob ?x1"
    have x5: "updates ?x5 = []" using x1 by (simp add: updates_await)
    show ?thesis
    proof (cases "blob_read r")
      case Rejected
      then have "try_catch env taskId attempt x = catch_block env ?x5"
        by (simp add: try_catch_def try_block_blob [OF Fulfilled 4] Let_def)
      then show ?thesis using updates_catch [OF x5] by (simp add: catch_block_flow)
    next
      case (Fulfilled b)
      then have "try_catch env taskId attempt x =
          (if bytes b = [] then empty_branch ?x5
           else (Returns, emit (SetStatus Success) (emit (SetResultUrl b) ?x5)))"
        by (simp add: try_catch_def try_block_blob [OF \<open>fetch_result env attempt = Fulfilled r\<close> 4]
            Let_def empty_branch_def)
      then show ?thesis using x5
        by (simp add: empty_branch_def Let_def updates_emit loop_updates_iff)
    qed
  qed
qed

lemma updates_for_loop:
  "MAX_POLLS - attempt = k \<Longrightarrow> updates x = [] \<Longrightarrow>
   loop_updates (updates (snd (for_loop env taskId attempt x))) \<and>
   (fst (for_loop env taskId attempt x) = Normal \<longrightarrow>
      updates (snd (for_loop env taskId attempt x)) = [])"
proof (induction k arbitrary: attempt x)
  case 0
  then have "\<not> attempt < MAX_POLLS" by simp
  with 0 show ?case by (simp add: for_loop.simps [of env taskId attempt x] loop_updates_iff)
next
  case (Suc k)
  then have less: "attempt < MAX_POLLS" by simp
  show ?case
  proof (cases "token_aborted env (clock x)")
    case True
    with less Suc.prems(2) show ?thesis
      by (simp add: for_loop.simps [of env taskId attempt x] loop_body_skips_trailing
          updates_emit loop_updates_iff)
  next
    case False
    let ?x0 = "emit (ReadAborted False) x"
    have x0: "updates ?x0 = []" using Suc.prems(2) by (simp add: updates_emit)
    obtain f x' where tc: "try_catch env taskId attempt ?x0 = (f, x')"
      by (cases "try_catch env taskId attempt ?x0")
    have lb: "loop_body env taskId attempt x = (f, x')"
      using False tc by (simp add: loop_body_skips_trailing)
    have u: "loop_updates (updates x')" "f = Continues \<longrightarrow> updates x' = []"
      using updates_try_catch [OF x0, of env taskId attempt] tc by simp_all
    have f: "f = Returns \<or> f = Continues"
      using try_catch_flow [of env taskId attempt ?x0] tc by simp
    then show ?thesis
    proof
      assume "f = Returns"
      with less lb u show ?thesis by (simp add: for_loop.simps [of env taskId attempt x])
    next
      assume c: "f = Continues"
      have "MAX_POLLS - (attempt + 1) = k" using Suc.prems(1) by simp
      from Suc.IH [OF this, of x'] u c less lb show ?thesis
        by (simp add: for_loop.simps [of env taskId attempt x])
    qed
  qed
qed

lemma poll_updates: "loop_updates (filter is_mutation (trace (pollForResult env taskId)))"
proof (cases "for_loop env taskId 0 \<lparr>trace = [], clock = 0\<rparr>")
  case (Pair f x')
  have start: "updates \<lparr>trace = [], clock = 0\<rparr> = []" by (simp add: updates_def)
  note u = updates_for_loop [OF refl start, where attempt = 0 and env = env and taskId = taskId]
  show ?thesis
  proof (cases "f = Normal")
    case True
    with u Pair have "updates x' = []" by simp
    then have "loop_updates (updates (after_loop env x'))"
      by (simp add: after_loop_def signal_aborted_def Let_def split_def updates_emit
          loop_updates_iff)
    with Pair True show ?thesis by (simp add: pollForResult_def updates_def)
  next
    case False
    with Pair u show ?thesis
      by (cases f) (simp_all add: pollForResult_def updates_def)
  qed
qed

section \<open>Properties of the page component\<close>

subsection \<open>What the handlers change\<close>

lemma abort_current_fields [simp]:
  "previewUrl (abort_current s) = previewUrl s"
  "resultUrl (abort_current s) = resultUrl s"
  "created (abort_current s) = created s"
  "revoked (abort_current s) = revoked s"
  "selectedFile (abort_current s) = selectedFile s"
  "status (abort_current s) = status s"
  "errorMessage (abort_current s) = errorMessage s"
  "pollControllerRef (abort_current s) = pollControllerRef s"
  "controllers (abort_current s) = controllers s"
  by (simp_all add: abort_current_def split: option.splits)

lemma resetObjectUrl_fields [simp]:
  "previewUrl (resetObjectUrl u s) = previewUrl s"
  "resultUrl (resetObjectUrl u s) = resultUrl s"
  "created (resetObjectUrl u s) = created s"
  "revoked (resetObjectUrl u s) = revoked s @ opt u"
  "selectedFile (resetObjectUrl u s) = selectedFile s"
  "status (resetObjectUrl u s) = status s"
  "errorMessage (resetObjectUrl u s) = errorMessage s"
  "pollControllerRef (resetObjectUrl u s) = pollControllerRef s"
  "controllers (resetObjectUrl u s) = controllers s"
  "aborted (resetObjectUrl u s) = aborted s"
  by (cases u; simp add: resetObjectUrl_def)+

lemma clear_result_fields [simp]:
  "previewUrl (clear_result s) = previewUrl s"
  "resultUrl (clear_result s) = None"
  "created (clear_result s) = created s"
  "revoked (clear_result s) = revoked s @ opt (resultUrl s)"
  "selectedFile (clear_result s) = selectedFile s"
  "status (clear_result s) = status s"
  "errorMessage (clear_result s) = errorMessage s"
  "pollControllerRef (clear_result s) = pollControllerRef s"
  "controllers (clear_result s) = controllers s"
  "aborted (clear_result s) = aborted s"
  by (simp_all add: clear_result_def)

lemma start_poll_fields [simp]:
  "previewUrl (start_poll s) = previewUrl s"
  "resultUrl (start_poll s) = resultUrl s"
  "created (start_poll s) = created s"
  "revoked (start_poll s) = revoked s"
  "selectedFile (start_poll s) = selectedFile s"
  "status (start_poll s) = status s"
  "errorMessage (start_poll s) = errorMessage s"
  by (simp_all add: start_poll_def Let_def)

lemma run_cleanups_fields [simp]:
  "previewUrl (run_cleanups rendered s) = previewUrl s"
  "resultUrl (run_cleanups rendered s) = resultUrl s"
  "created (run_cleanups rendered s) = created s"
  "revoked (run_cleanups rendered s) =
     revoked s @ (if previewUrl s \<noteq> previewUrl rendered then opt (previewUrl rendered) else [])
               @ (if resultUrl s \<noteq> resultUrl rendered then opt (resultUrl rendered) else [])"
  "selectedFile (run_cleanups rendered s) = selectedFile s"
  "status (run_cleanups rendered s) = status s"
  "errorMessage (run_cleanups rendered s) = errorMessage s"
  "pollControllerRef (run_cleanups rendered s) = pollControllerRef s"
  "controllers (run_cleanups rendered s) = controllers s"
  "aborted (run_cleanups rendered s) = aborted s"
  by (simp_all add: run_cleanups_def Let_def)

lemma handles_eq:
  "handles s = (p, r, c, v) \<longleftrightarrow> previewUrl s = p \<and> resultUrl s = r \<and> created s = c \<and> revoked s = v"
  by (auto simp: handles_def)

lemma handles_handleFileChange_None:
  "handles (handleFileChange None s) = (None, resultUrl s, created s, revoked s @ opt (previewUrl s))"
  by (simp add: handles_eq handleFileChange_def Let_def)

lemma handles_handleFileChange_Some:
  "handles (handleFileChange (Some f) s) =
     (Some (length (created s)), None, created s @ [Preview],
      revoked s @ opt (previewUrl s) @ opt (resultUrl s))"
  by (simp add: handles_eq handleFileChange_def createObjectURL_def Let_def)

lemma handles_handleSubmit:
  "handles (fst (handleSubmit s)) =
     (case selectedFile s of
        None \<Rightarrow> handles s
      | Some f \<Rightarrow> (previewUrl s, None, created s, revoked s @ opt (resultUrl s)))"
  by (cases "selectedFile s") (simp_all add: handles_def handleSubmit_def Let_def)

lemma handles_handleSubmit_settled: "handles (handleSubmit_settled outcome s) = handles s"
  by (cases outcome) (simp_all add: handles_def handleSubmit_settled_def Let_def)

lemma handles_handleReset:
  "handles (handleReset s) =
     (None, None, created s, revoked s @ opt (previewUrl s) @ opt (resultUrl s))"
  by (simp add: handles_eq handleReset_def Let_def)


lemma count_list_0: "u \<notin> set xs \<Longrightarrow> count_list xs u = 0"
  by (induction xs) auto

lemma handles_ok_weaken: "handles_ok pend h \<Longrightarrow> pend' = pend \<Longrightarrow> handles_ok pend' h"
  by simp

lemma handles_ok_drop_preview:
  "handles_ok pend (p, r, c, v) \<Longrightarrow> handles_ok (pend \<union> set_option p) (None, r, c, v @ opt p)"
  by (cases p) (auto simp: handles_ok.simps count_list_0)

lemma handles_ok_drop_result:
  "handles_ok pend (p, r, c, v) \<Longrightarrow> handles_ok (pend \<union> set_option r) (p, None, c, v @ opt r)"
  by (cases r) (auto simp: handles_ok.simps count_list_0)

lemma handles_ok_new_preview:
  "handles_ok pend (None, r, c, v) \<Longrightarrow> handles_ok pend (Some (length c), r, c @ [Preview], v)"
  by (fastforce simp: handles_ok.simps nth_append less_Suc_eq)

lemma handles_ok_new_result:
  "handles_ok pend (p, None, c, v) \<Longrightarrow> handles_ok pend (p, Some (length c), c @ [Result], v)"
  by (fastforce simp: handles_ok.simps nth_append less_Suc_eq)

lemma handles_ok_cleanup:
  "handles_ok pend (p, r, c, v) \<Longrightarrow> set_option u \<subseteq> pend \<Longrightarrow>
   handles_ok (pend - set_option u) (p, r, c, v @ opt u)"
  by (cases u) (auto simp: handles_ok.simps)


lemma opt_if_changed:
  "(if None \<noteq> u then opt u else []) = opt u"
  "(if Some (x::nat) \<noteq> u then opt u else []) = (if u = Some x then [] else opt u)"
  by (cases u; auto)+

lemma handles_step:
  "handles (step a s) =
     (previewUrl (handler a s), resultUrl (handler a s), created (handler a s),
      revoked (handler a s)
        @ (if previewUrl (handler a s) \<noteq> previewUrl s then opt (previewUrl s) else [])
        @ (if resultUrl (handler a s) \<noteq> resultUrl s then opt (resultUrl s) else []))"
  by (simp add: handles_def step_def)

lemma kinds_apart:
  "handles_ok pend (handles s) \<Longrightarrow> set_option (previewUrl s) \<inter> set_option (resultUrl s) = {}"
  by (cases "previewUrl s"; cases "resultUrl s") (auto simp: handles_def handles_ok.simps)

lemma step_FileChange_None_ok:
  assumes "handles_ok {} (handles s)"
  shows "handles_ok {} (handles (step (FileChange None) s))"
proof -
  let ?p = "previewUrl s" and ?r = "resultUrl s" and ?c = "created s" and ?v = "revoked s"
  have view: "handles (step (FileChange None) s) = (None, ?r, ?c, (?v @ opt ?p) @ opt ?p)"
    using handles_handleFileChange_None [of s]
    by (simp add: handles_step handles_eq opt_if_changed)
  have "handles_ok ({} \<union> set_option ?p) (None, ?r, ?c, ?v @ opt ?p)"
    using assms unfolding handles_def by (rule handles_ok_drop_preview)
  then have "handles_ok (({} \<union> set_option ?p) - set_option ?p) (None, ?r, ?c, (?v @ opt ?p) @ opt ?p)"
    by (rule handles_ok_cleanup) simp
  then show ?thesis unfolding view by (rule handles_ok_weaken) simp
qed

lemma step_FileChange_Some_ok:
  assumes "handles_ok {} (handles s)"
  shows "handles_ok {} (handles (step (FileChange (Some f)) s))"
proof -
  let ?p = "previewUrl s" and ?r = "resultUrl s" and ?c = "created s" and ?v = "revoked s"
  have fresh: "?p \<noteq> Some (length ?c)"
    using assms by (auto simp: handles_def handles_ok.simps)
  have view: "handles (step (FileChange (Some f)) s) =
      (Some (length ?c), None, ?c @ [Preview], (((?v @ opt ?p) @ opt ?r) @ opt ?p) @ opt ?r)"
    using handles_handleFileChange_Some [of f s] fresh
    by (auto simp: handles_step handles_eq opt_if_changed)
  have "handles_ok ({} \<union> set_option ?p) (None, ?r, ?c, ?v @ opt ?p)"
    using assms unfolding handles_def by (rule handles_ok_drop_preview)
  then have "handles_ok (({} \<union> set_option ?p) \<union> set_option ?r) (None, None, ?c, (?v @ opt ?p) @ opt ?r)"
    by (rule handles_ok_drop_result)
  then have "handles_ok ((({} \<union> set_option ?p) \<union> set_option ?r) - set_option ?p)
      (None, None, ?c, ((?v @ opt ?p) @ opt ?r) @ opt ?p)"
    by (rule handles_ok_cleanup) auto
  then have "handles_ok (set_option ?r) (None, None, ?c, ((?v @ opt ?p) @ opt ?r) @ opt ?p)"
    by (rule handles_ok_weaken) (use kinds_apart [OF assms] in auto)
  then have "handles_ok (set_option ?r - set_option ?r)
      (None, None, ?c, (((?v @ opt ?p) @ opt ?r) @ opt ?p) @ opt ?r)"
    by (rule handles_ok_cleanup) simp
  then have "handles_ok (set_option ?r - set_option ?r)
      (Some (length ?c), None, ?c @ [Preview], (((?v @ opt ?p) @ opt ?r) @ opt ?p) @ opt ?r)"
    by (rule handles_ok_new_preview)
  then show ?thesis unfolding view by (rule handles_ok_weaken) simp
qed

lemma step_Submit_ok:
  assumes "handles_ok {} (handles s)"
  shows "handles_ok {} (handles (step Submit s))"
proof (cases "selectedFile s")
  case None
  then have "handles (step Submit s) = handles s"
    using handles_handleSubmit [of s] by (simp add: handles_def step_def)
  with assms show ?thesis by simp
next
  case (Some f)
  let ?p = "previewUrl s" and ?r = "resultUrl s" and ?c = "created s" and ?v = "revoked s"
  have view: "handles (step Submit s) = (?p, None, ?c, (?v @ opt ?r) @ opt ?r)"
    using handles_handleSubmit [of s] Some
    by (simp add: handles_step handles_eq opt_if_changed)
  have "handles_ok ({} \<union> set_option ?r) (?p, None, ?c, ?v @ opt ?r)"
    using assms unfolding handles_def by (rule handles_ok_drop_result)
  then have "handles_ok (({} \<union> set_option ?r) - set_option ?r) (?p, None, ?c, (?v @ opt ?r) @ opt ?r)"
    by (rule handles_ok_cleanup) simp
  then show ?thesis unfolding view by (rule handles_ok_weaken) simp
qed

lemma step_UploadSettled_ok:
  assumes "handles_ok {} (handles s)"
  shows "handles_ok {} (handles (step (UploadSettled outcome) s))"
proof -
  have "handles (step (UploadSettled outcome) s) = handles s"
    using handles_handleSubmit_settled [of outcome s]
    by (simp add: handles_def step_def)
  with assms show ?thesis by simp
qed

lemma step_Reset_ok:
  assumes "handles_ok {} (handles s)"
  shows "handles_ok {} (handles (step Reset s))"
proof -
  let ?p = "previewUrl s" and ?r = "resultUrl s" and ?c = "created s" and ?v = "revoked s"
  have view: "handles (step Reset s) = (None, None, ?c, (((?v @ opt ?p) @ opt ?r) @ opt ?p) @ opt ?r)"
    using handles_handleReset [of s]
    by (simp add: handles_step handles_eq opt_if_changed)
  have "handles_ok ({} \<union> set_option ?p) (None, ?r, ?c, ?v @ opt ?p)"
    using assms unfolding handles_def by (rule handles_ok_drop_preview)
  then have "handles_ok (({} \<union> set_option ?p) \<union> set_option ?r) (None, None, ?c, (?v @ opt ?p) @ opt ?r)"
    by (rule handles_ok_drop_result)
  then have "handles_ok ((({} \<union> set_option ?p) \<union> set_option ?r) - set_option ?p)
      (None, None, ?c, ((?v @ opt ?p) @ opt ?r) @ opt ?p)"
    by (rule handles_ok_cleanup) auto
  then have "handles_ok (set_option ?r) (None, None, ?c, ((?v @ opt ?p) @ opt ?r) @ opt ?p)"
    by (rule handles_ok_weaken) (use kinds_apart [OF assms] in auto)
  then have "handles_ok (set_option ?r - set_option ?r)
      (None, None, ?c, (((?v @ opt ?p) @ opt ?r) @ opt ?p) @ opt ?r)"
    by (rule handles_ok_cleanup) simp
  then show ?thesis unfolding view by (rule handles_ok_weaken) simp
qed


lemma handles_loop_updates:
  assumes "loop_updates es"
  shows "handles (apply_events es s) = handles s \<or>
    handles (apply_events es s) =
      (previewUrl s, Some (length (created s)), created s @ [Result],
       revoked s @ opt (resultUrl s))"
  using assms unfolding loop_updates_iff
  by (elim disjE exE) (simp_all add: handles_def createObjectURL_def Let_def)

lemma result_in_range:
  "handles_ok pend (handles s) \<Longrightarrow> resultUrl s = Some x \<Longrightarrow> x < length (created s)"
  by (simp add: handles_def handles_ok.simps)

lemma step_PollEmits_ok:
  assumes wf: "loop_updates es" and ok: "handles_ok {} (handles s)"
  shows "handles_ok {} (handles (step (PollEmits es) s))"
proof -
  let ?t = "apply_events es s"
  let ?p = "previewUrl s" and ?r = "resultUrl s" and ?c = "created s" and ?v = "revoked s"
  from handles_loop_updates [OF wf, of s] show ?thesis
  proof
    assume same: "handles ?t = handles s"
    then have "handles (step (PollEmits es) s) = handles s"
      by (simp add: handles_def step_def)
    with ok show ?thesis by simp
  next
    assume new: "handles ?t = (?p, Some (length ?c), ?c @ [Result], ?v @ opt ?r)"
    then have fields: "previewUrl ?t = ?p" "resultUrl ?t = Some (length ?c)"
      "created ?t = ?c @ [Result]" "revoked ?t = ?v @ opt ?r"
      by (simp_all add: handles_def)
    have differs: "resultUrl ?t \<noteq> ?r"
      using result_in_range [OF ok, of "length ?c"] fields(2) by auto
    have view: "handles (step (PollEmits es) s) =
        (?p, Some (length ?c), ?c @ [Result], (?v @ opt ?r) @ opt ?r)"
      unfolding handles_step handler.simps using differs fields by simp
    have "handles_ok ({} \<union> set_option ?r) (?p, None, ?c, ?v @ opt ?r)"
      using ok unfolding handles_def by (rule handles_ok_drop_result)
    then have "handles_ok (({} \<union> set_option ?r) - set_option ?r) (?p, None, ?c, (?v @ opt ?r) @ opt ?r)"
      by (rule handles_ok_cleanup) simp
    then have "handles_ok (({} \<union> set_option ?r) - set_option ?r)
        (?p, Some (length ?c), ?c @ [Result], (?v @ opt ?r) @ opt ?r)"
      by (rule handles_ok_new_result)
    then show ?thesis unfolding view by (rule handles_ok_weaken) simp
  qed
qed

lemma step_ok:
  assumes wf: "well_formed a" and ok: "handles_ok {} (handles s)"
  shows "handles_ok {} (handles (step a s))"
proof (cases a)
  case (FileChange f)
  with ok show ?thesis
    by (cases f) (simp_all add: step_FileChange_None_ok step_FileChange_Some_ok)
next
  case (PollEmits es)
  with wf have "loop_updates es" by simp
  from step_PollEmits_ok [OF this ok] PollEmits show ?thesis by simp
qed (use ok in \<open>simp_all add: step_Submit_ok step_UploadSettled_ok step_Reset_ok\<close>)

lemma initial_ok: "handles_ok {} (handles initial)"
  by (simp add: handles_def initial_def handles_ok.simps)

lemma run_actions_ok:
  "list_all well_formed acts \<Longrightarrow> handles_ok {} (handles s) \<Longrightarrow>
   handles_ok {} (handles (run_actions acts s))"
  by (induction acts arbitrary: s) (simp_all add: step_ok)

lemma reachable_ok:
  "list_all well_formed acts \<Longrightarrow> handles_ok {} (handles (run_actions acts initial))"
  by (rule run_actions_ok [OF _ initial_ok])

subsection \<open>Handles outstanding and revoked\<close>

lemma single_distinct: "distinct xs \<Longrightarrow> set xs = set_option p \<Longrightarrow> xs = opt p"
proof (cases p)
  case None
  assume "set xs = set_option p"
  with None show ?thesis by simp
next
  case (Some u)
  assume d: "distinct xs" and s: "set xs = set_option p"
  show ?thesis
  proof (cases xs)
    case Nil
    with s Some show ?thesis by simp
  next
    case (Cons a ys)
    with s Some have a: "a = u" and sub: "set ys \<subseteq> {u}" by auto
    from d Cons a have "u \<notin> set ys" by simp
    with sub have "ys = []" by (cases ys) auto
    with Cons a Some show ?thesis by simp
  qed
qed

lemma count_list_pos: "0 < count_list xs u \<Longrightarrow> u \<in> set xs"
  by (rule ccontr) (simp add: count_list_0)

lemma ok_preview:
  "handles_ok pend (handles s) \<Longrightarrow> previewUrl s = Some u \<Longrightarrow>
   u < length (created s) \<and> created s ! u = Preview \<and> u \<notin> set (revoked s)"
  by (simp add: handles_def handles_ok.simps)

lemma ok_result:
  "handles_ok pend (handles s) \<Longrightarrow> resultUrl s = Some u \<Longrightarrow>
   u < length (created s) \<and> created s ! u = Result \<and> u \<notin> set (revoked s)"
  by (simp add: handles_def handles_ok.simps)

lemma ok_other:
  "handles_ok {} (handles s) \<Longrightarrow> u < length (created s) \<Longrightarrow>
   previewUrl s \<noteq> Some u \<Longrightarrow> resultUrl s \<noteq> Some u \<Longrightarrow> count_list (revoked s) u = 2"
  by (simp add: handles_def handles_ok.simps)

lemma outstanding_Preview_current:
  assumes "handles_ok {} (handles s)"
  shows "outstanding Preview s = opt (previewUrl s)"
proof -
  have "set (outstanding Preview s) = set_option (previewUrl s)"
  proof (intro equalityI subsetI)
    fix u assume "u \<in> set (outstanding Preview s)"
    then have u: "u < length (created s)" "created s ! u = Preview" "u \<notin> set (revoked s)"
      by (simp_all add: outstanding_def)
    have "count_list (revoked s) u \<noteq> 2" using u(3) by (simp add: count_list_0)
    then have "previewUrl s = Some u \<or> resultUrl s = Some u"
      using ok_other [OF assms u(1)] by blast
    moreover have "resultUrl s \<noteq> Some u"
      using ok_result [OF assms, of u] u(2) by auto
    ultimately show "u \<in> set_option (previewUrl s)" by simp
  next
    fix u assume "u \<in> set_option (previewUrl s)"
    then have "previewUrl s = Some u" by (cases "previewUrl s") simp_all
    from ok_preview [OF assms this] show "u \<in> set (outstanding Preview s)"
      by (simp add: outstanding_def)
  qed
  moreover have "distinct (outstanding Preview s)" by (simp add: outstanding_def)
  ultimately show ?thesis by (intro single_distinct)
qed

lemma outstanding_Result_current:
  assumes "handles_ok {} (handles s)"
  shows "outstanding Result s = opt (resultUrl s)"
proof -
  have "set (outstanding Result s) = set_option (resultUrl s)"
  proof (intro equalityI subsetI)
    fix u assume "u \<in> set (outstanding Result s)"
    then have u: "u < length (created s)" "created s ! u = Result" "u \<notin> set (revoked s)"
      by (simp_all add: outstanding_def)
    have "count_list (revoked s) u \<noteq> 2" using u(3) by (simp add: count_list_0)
    then have "previewUrl s = Some u \<or> resultUrl s = Some u"
      using ok_other [OF assms u(1)] by blast
    moreover have "previewUrl s \<noteq> Some u"
      using ok_preview [OF assms, of u] u(2) by auto
    ultimately show "u \<in> set_option (resultUrl s)" by simp
  next
    fix u assume "u \<in> set_option (resultUrl s)"
    then have "resultUrl s = Some u" by (cases "resultUrl s") simp_all
    from ok_result [OF assms this] show "u \<in> set (outstanding Result s)"
      by (simp add: outstanding_def)
  qed
  moreover have "distinct (outstanding Result s)" by (simp add: outstanding_def)
  ultimately show ?thesis by (intro single_distinct)
qed

lemma length_opt: "length (opt p) \<le> 1"
  by (cases p) simp_all

lemma revocations_mounted:
  assumes ok: "handles_ok {} (handles s)" and u: "u < length (created s)"
  shows "revocations u s = (if previewUrl s = Some u \<or> resultUrl s = Some u then 0 else 2)"
proof (cases "previewUrl s = Some u \<or> resultUrl s = Some u")
  case False
  with ok_other [OF ok u] show ?thesis by (simp add: revocations_def)
next
  case True
  have "u \<notin> set (revoked s)"
    using True ok_preview [OF ok, of u] ok_result [OF ok, of u] by blast
  with True show ?thesis by (simp add: revocations_def count_list_0)
qed

lemma unmount_fields:
  "created (unmount s) = created s"
  "revoked (unmount s) = revoked s @ opt (previewUrl s) @ opt (resultUrl s)"
  "previewUrl (unmount s) = previewUrl s"
  "resultUrl (unmount s) = resultUrl s"
  by (simp_all add: unmount_def Let_def)

lemma revocations_after_unmount:
  assumes ok: "handles_ok {} (handles s)" and u: "u < length (created s)"
  shows "revocations u (unmount s) =
    (if previewUrl s = Some u \<or> resultUrl s = Some u then 1 else 2)"
proof (cases "previewUrl s = Some u \<or> resultUrl s = Some u")
  case False
  then have "count_list (revoked s) u = 2"
    using ok_other [OF ok u] by blast
  moreover have "count_list (opt (previewUrl s)) u = 0" "count_list (opt (resultUrl s)) u = 0"
    using False by (cases "previewUrl s"; cases "resultUrl s"; simp)+
  ultimately show ?thesis using False by (simp add: revocations_def unmount_fields)
next
  case True
  have apart: "set_option (previewUrl s) \<inter> set_option (resultUrl s) = {}"
    by (rule kinds_apart [OF ok])
  have "u \<notin> set (revoked s)"
    using True ok_preview [OF ok, of u] ok_result [OF ok, of u] by blast
  then have zero: "count_list (revoked s) u = 0" by (simp add: count_list_0)
  have "count_list (opt (previewUrl s)) u + count_list (opt (resultUrl s)) u = 1"
    using True apart by (cases "previewUrl s"; cases "resultUrl s") auto
  with zero True show ?thesis by (simp add: revocations_def unmount_fields)
qed

lemma outstanding_after_unmount:
  assumes ok: "handles_ok {} (handles s)"
  shows "outstanding k (unmount s) = []"
proof -
  have "u \<in> set (revoked (unmount s))" if "u < length (created s)" for u
  proof -
    have "0 < count_list (revoked (unmount s)) u"
      using revocations_after_unmount [OF ok that] unfolding revocations_def
      by (simp split: if_splits)
    then show ?thesis by (rule count_list_pos)
  qed
  then show ?thesis by (simp add: outstanding_def filter_empty_conv unmount_fields(1))
qed

lemmas handler_defs = step_def run_cleanups_def handleFileChange_def handleSubmit_def
  handleSubmit_settled_def handleReset_def clear_result_def resetObjectUrl_def createObjectURL_def
  abort_current_def start_poll_def unmount_def

lemma first_selection:
  "step (FileChange (Some photo)) initial =
     \<lparr>selectedFile = Some photo, previewUrl = Some 0, resultUrl = None, status = Idle,
      errorMessage = None, pollControllerRef = None, created = [Preview],
      revoked = [], controllers = 0, aborted = {}\<rparr>"
  by (simp add: handler_defs initial_def Let_def)

lemma two_selections:
  "run_actions [FileChange (Some photo), FileChange (Some photo)] initial =
     \<lparr>selectedFile = Some photo, previewUrl = Some 1, resultUrl = None, status = Idle,
      errorMessage = None, pollControllerRef = None, created = [Preview, Preview],
      revoked = [0, 0], controllers = 0, aborted = {}\<rparr>"
  unfolding run_actions.simps first_selection by (simp add: handler_defs Let_def)

lemma png_poll_updates:
  "filter is_mutation (trace (pollForResult (answers png_reply) ''t1'')) =
     [SetResultUrl \<lparr>bytes = ten_bytes, mime = ''image/png''\<rparr>, SetStatus Success]"
proof -
  have "for_loop (answers png_reply) ''t1'' 0 \<lparr>trace = [], clock = 0\<rparr> =
     (Returns, \<lparr>trace = [ReadAborted False, Fetch ''/api/result/t1'', ReadBlob,
        SetResultUrl \<lparr>bytes = ten_bytes, mime = ''image/png''\<rparr>,
        SetStatus Success], clock = 2\<rparr>)"
    using for_loop_blob_reply [where attempt = 0 and env = "answers png_reply"
        and x = "\<lparr>trace = [], clock = 0\<rparr>" and r = png_reply
        and b = "\<lparr>bytes = ten_bytes, mime = ''image/png''\<rparr>" and taskId = "''t1''"]
    by (simp add: answers_def png_reply_def ok_def MAX_POLLS_def token_aborted_def ten_bytes_def)
  then show ?thesis by (simp add: pollForResult_def)
qed

lemma after_submit:
  "step Submit (step (FileChange (Some photo)) initial) =
     \<lparr>selectedFile = Some photo, previewUrl = Some 0, resultUrl = None, status = Uploading,
      errorMessage = None, pollControllerRef = None, created = [Preview],
      revoked = [], controllers = 0, aborted = {}\<rparr>"
  unfolding first_selection by (simp add: handler_defs Let_def)

lemma after_upload:
  "step (UploadSettled (Fulfilled accepted_reply))
     (step Submit (step (FileChange (Some photo)) initial)) =
     \<lparr>selectedFile = Some photo, previewUrl = Some 0, resultUrl = None, status = Processing,
      errorMessage = None, pollControllerRef = Some 0, created = [Preview],
      revoked = [], controllers = 1, aborted = {}\<rparr>"
  unfolding after_submit by (simp add: handler_defs accepted_reply_def json_reply_def ok_def Let_def)

lemma state_at_success:
  "run_actions until_success initial =
     \<lparr>selectedFile = Some photo, previewUrl = Some 0, resultUrl = Some 1, status = Success,
      errorMessage = None, pollControllerRef = Some 0, created = [Preview, Result],
      revoked = [], controllers = 1, aborted = {}\<rparr>"
  unfolding until_success_def run_actions.simps after_upload png_poll_updates
  by (simp add: handler_defs Let_def)

lemma until_success_well_formed: "list_all well_formed until_success"
  by (simp add: until_success_def png_poll_updates loop_updates_iff)

lemma run_actions_append: "run_actions (xs @ ys) s = run_actions ys (run_actions xs s)"
  by (induction xs arbitrary: s) simp_all

lemma step_Reset_state:
  "step Reset s =
     s\<lparr>selectedFile := None, previewUrl := None, resultUrl := None, status := Idle,
       errorMessage := None,
       revoked := revoked s @ opt (previewUrl s) @ opt (resultUrl s)
                    @ opt (previewUrl s) @ opt (resultUrl s),
       aborted := aborted s \<union> set_option (pollControllerRef s)\<rparr>"
  by (cases "previewUrl s"; cases "resultUrl s"; cases "pollControllerRef s")
    (simp_all add: handler_defs)

lemma reset_after_success:
  "run_actions (until_success @ [Reset]) initial =
     \<lparr>selectedFile = None, previewUrl = None, resultUrl = None, status = Idle,
      errorMessage = None, pollControllerRef = Some 0, created = [Preview, Result],
      revoked = [0, 1, 0, 1], controllers = 1, aborted = {0}\<rparr>"
  unfolding run_actions_append state_at_success run_actions.simps step_Reset_state by simp

text \<open>
  Claim C8, as amended. Take any sequence of actions of the mounted component: selections
  with or without a file, submissions, settled uploads, resets, and state updates of poll
  loops as a run of the loop makes them (none, a failure, or a success with its result
  handle). In the state that it reaches, the outstanding preview handles are exactly the
  one held in \<^verbatim>\<open>previewUrl\<close>, if there is one, and likewise for the result handles and
  \<^verbatim>\<open>resultUrl\<close>, so that at most one handle of each kind is outstanding. A handle held in the
  state has not been revoked, and every other handle that was made has been revoked exactly
  twice: by the handler that replaced or cleared it and by the cleanup of the effect on its
  state variable. When the component is then removed, no handle is left outstanding: a
  handle that was held has been revoked exactly once, and every other handle twice.
\<close>

theorem handle_lifecycle:
  "list_all well_formed acts \<Longrightarrow>
   outstanding Preview (run_actions acts initial) = opt (previewUrl (run_actions acts initial))
   \<and> outstanding Result (run_actions acts initial) = opt (resultUrl (run_actions acts initial))
   \<and> length (outstanding Preview (run_actions acts initial)) \<le> 1
   \<and> length (outstanding Result (run_actions acts initial)) \<le> 1
   \<and> (u < length (created (run_actions acts initial)) \<longrightarrow>
        revocations u (run_actions acts initial) =
          (if previewUrl (run_actions acts initial) = Some u
              \<or> resultUrl (run_actions acts initial) = Some u then 0 else 2)
        \<and> revocations u (unmount (run_actions acts initial)) =
          (if previewUrl (run_actions acts initial) = Some u
              \<or> resultUrl (run_actions acts initial) = Some u then 1 else 2))
   \<and> outstanding Preview (unmount (run_actions acts initial)) = []
   \<and> outstanding Result (unmount (run_actions acts initial)) = []"
proof -
  assume "list_all well_formed acts"
  then have ok: "handles_ok {} (handles (run_actions acts initial))"
    by (rule reachable_ok)
  show ?thesis
    using outstanding_Preview_current [OF ok] outstanding_Result_current [OF ok]
      length_opt [of "previewUrl (run_actions acts initial)"]
      length_opt [of "resultUrl (run_actions acts initial)"]
      revocations_mounted [OF ok, of u] revocations_after_unmount [OF ok, of u]
      outstanding_after_unmount [OF ok]
    by simp
qed

text \<open>
  Claim C8, an instance: a file is selected and submitted, the upload is accepted, the poll
  loop receives a result, and Reset is clicked. The run of the loop is well formed. The
  result handle, which the reset has cleared, has been revoked twice, also after the
  removal of the component, and nothing is outstanding.
\<close>

theorem handle_lifecycle_witness:
  "list_all well_formed (until_success @ [Reset])
   \<and> created (run_actions (until_success @ [Reset]) initial) = [Preview, Result]
   \<and> resultUrl (run_actions (until_success @ [Reset]) initial) = None
   \<and> revocations 1 (run_actions (until_success @ [Reset]) initial) = 2
   \<and> revocations 1 (unmount (run_actions (until_success @ [Reset]) initial)) = 2
   \<and> outstanding Preview (run_actions (until_success @ [Reset]) initial) = []
   \<and> outstanding Result (run_actions (until_success @ [Reset]) initial) = []
   \<and> outstanding Result (unmount (run_actions (until_success @ [Reset]) initial)) = []"
proof -
  have wf: "list_all well_formed (until_success @ [Reset])"
    using until_success_well_formed by simp
  have fields: "created (run_actions (until_success @ [Reset]) initial) = [Preview, Result]"
    "previewUrl (run_actions (until_success @ [Reset]) initial) = None"
    "resultUrl (run_actions (until_success @ [Reset]) initial) = None"
    unfolding reset_after_success by simp_all
  from handle_lifecycle [OF wf, of 1] wf fields show ?thesis by simp
qed

text \<open>
  Claim C8 as stated fails on "exactly once": a handle that is replaced is revoked by the
  handler (line 58) and again by the cleanup of the effect on \<^verbatim>\<open>previewUrl\<close> (line 30). After
  two selections of a file the first preview handle has been revoked twice.
\<close>

theorem double_revocation_counterexample:
  "created (run_actions [FileChange (Some photo), FileChange (Some photo)] initial) = [Preview, Preview]
   \<and> revocations 0 (run_actions [FileChange (Some photo), FileChange (Some photo)] initial) = 2
   \<and> revocations 0 (unmount (run_actions [FileChange (Some photo), FileChange (Some photo)] initial)) = 2"
  unfolding two_selections
  by (simp add: revocations_def unmount_def resetObjectUrl_def abort_current_def)

subsection \<open>The result handle and the status\<close>

text \<open>
  Claim C3, at the session \<open>until_success\<close> followed by a selection of no file. After the
  result has arrived the status is \<^verbatim>\<open>success\<close> and the result handle is set. The file dialog
  is then closed without a file: lines 48 to 55 set the status to \<^verbatim>\<open>idle\<close> and clear the file
  and the preview, but, unlike lines 62 to 65 for a selected file, leave the result handle
  in place. The state has a result handle, not revoked, and the status \<^verbatim>\<open>idle\<close>.
\<close>

theorem no_file_selection_keeps_result:
  "status (run_actions until_success initial) = Success
   \<and> resultUrl (run_actions until_success initial) = Some 1
   \<and> run_actions (until_success @ [FileChange None]) initial =
       \<lparr>selectedFile = None, previewUrl = None, resultUrl = Some 1, status = Idle,
        errorMessage = None, pollControllerRef = Some 0, created = [Preview, Result],
        revoked = [0, 0], controllers = 1, aborted = {0}\<rparr>"
proof -
  have "run_actions (until_success @ [FileChange None]) initial =
      step (FileChange None) (run_actions until_success initial)"
    by (simp add: until_success_def)
  then show ?thesis
    unfolding state_at_success by (simp add: handler_defs Let_def)
qed

lemma status_step [simp]: "status (step a s) = status (handler a s)"
  by (simp add: step_def)

lemma resultUrl_step [simp]: "resultUrl (step a s) = resultUrl (handler a s)"
  by (simp add: step_def)

lemma status_handleFileChange: "status (handleFileChange f s) = Idle"
  by (cases f) (simp_all add: handleFileChange_def createObjectURL_def Let_def)

lemma status_handleReset: "status (handleReset s) = Idle"
  by (simp add: handleReset_def Let_def)

lemma handleSubmit_status_result:
  "status (fst (handleSubmit s)) = Success \<Longrightarrow>
   status s = Success \<and> resultUrl (fst (handleSubmit s)) = resultUrl s"
  by (cases "selectedFile s") (simp_all add: handleSubmit_def Let_def)

lemma status_handleSubmit_settled: "status (handleSubmit_settled outcome s) \<noteq> Success"
  by (cases outcome) (simp_all add: handleSubmit_settled_def Let_def)

lemma apply_loop_updates:
  "loop_updates es \<Longrightarrow> success_has_result s \<Longrightarrow> success_has_result (apply_events es s)"
  unfolding loop_updates_iff
  by (elim disjE exE) (simp_all add: success_has_result_def createObjectURL_def Let_def)

lemma step_success_has_result:
  assumes "well_formed a" and "success_has_result s"
  shows "success_has_result (step a s)"
proof (cases a)
  case (FileChange f)
  then show ?thesis by (simp add: success_has_result_def status_handleFileChange)
next
  case Submit
  with assms(2) handleSubmit_status_result [of s] show ?thesis
    by (auto simp: success_has_result_def)
next
  case (UploadSettled outcome)
  then show ?thesis by (simp add: success_has_result_def status_handleSubmit_settled)
next
  case (PollEmits es)
  with assms have "success_has_result (apply_events es s)" by (simp add: apply_loop_updates)
  with PollEmits show ?thesis by (simp add: success_has_result_def)
next
  case Reset
  then show ?thesis by (simp add: success_has_result_def status_handleReset)
qed

text \<open>
  One direction of the invariant of claim C3 does hold: in every state that the actions
  reach, with the state updates of poll loops as the loop makes them, a status \<^verbatim>\<open>success\<close>
  comes with a result handle.
\<close>

lemma success_implies_result:
  "list_all well_formed acts \<Longrightarrow> success_has_result s \<Longrightarrow>
   success_has_result (run_actions acts s)"
  by (induction acts arbitrary: s) (simp_all add: step_success_has_result)

lemma reachable_success_has_result:
  "list_all well_formed acts \<Longrightarrow> status (run_actions acts initial) = Success \<Longrightarrow>
   resultUrl (run_actions acts initial) \<noteq> None"
proof -
  assume wf: "list_all well_formed acts" and s: "status (run_actions acts initial) = Success"
  have "success_has_result initial" by (simp add: success_has_result_def initial_def)
  with wf have "success_has_result (run_actions acts initial)"
    by (rule success_implies_result)
  with s show ?thesis by (simp add: success_has_result_def)
qed

subsection \<open>Submitting without a file\<close>

lemma handleSubmit_without_file:
  "selectedFile s = None \<Longrightarrow>
   handleSubmit s =
     (s\<lparr>errorMessage := Some (JString ''Please choose an image before checking.'')\<rparr>, None)"
  by (simp add: handleSubmit_def)

lemma step_Submit_without_file:
  "selectedFile s = None \<Longrightarrow>
   step Submit s = s\<lparr>errorMessage := Some (JString ''Please choose an image before checking.'')\<rparr>"
  by (simp add: step_def handleSubmit_without_file run_cleanups_def)

text \<open>
  Claim C4, as amended. When no file is selected, the handler sets the error message
  \<^verbatim>\<open>Please choose an image before checking.\<close> and returns (lines 154 to 157): it makes no
  network call, and the state is the one before but for the message, also after the render
  and the cleanups. In particular the status is the one before; it is not set to \<^verbatim>\<open>error\<close>.
\<close>

theorem submit_without_file_sets_message_only:
  "selectedFile s = None \<Longrightarrow>
   handleSubmit s =
     (s\<lparr>errorMessage := Some (JString ''Please choose an image before checking.'')\<rparr>, None)
   \<and> step Submit s = s\<lparr>errorMessage := Some (JString ''Please choose an image before checking.'')\<rparr>
   \<and> status (step Submit s) = status s"
  by (simp add: handleSubmit_without_file step_Submit_without_file)

text \<open>Claim C4, an instance: the initial state, where no file is selected.\<close>

theorem submit_without_file_sets_message_only_witness:
  "selectedFile initial = None
   \<and> handleSubmit initial =
       (initial\<lparr>errorMessage := Some (JString ''Please choose an image before checking.'')\<rparr>, None)
   \<and> step Submit initial =
       initial\<lparr>errorMessage := Some (JString ''Please choose an image before checking.'')\<rparr>
   \<and> status (step Submit initial) = status initial"
proof -
  have none: "selectedFile initial = None" by (simp add: initial_def)
  from submit_without_file_sets_message_only [OF none] none show ?thesis by simp
qed

text \<open>
  Claim C4 as stated fails on the status: in the initial state no file is selected and the
  status is \<^verbatim>\<open>idle\<close>, and after the handler it still is \<^verbatim>\<open>idle\<close>, not \<^verbatim>\<open>error\<close>.
\<close>

theorem submit_without_file_keeps_status:
  "selectedFile initial = None \<and> status initial = Idle
   \<and> handleSubmit initial =
       (initial\<lparr>errorMessage := Some (JString ''Please choose an image before checking.'')\<rparr>, None)
   \<and> step Submit initial =
       initial\<lparr>errorMessage := Some (JString ''Please choose an image before checking.'')\<rparr>
   \<and> status (fst (handleSubmit initial)) = Idle
   \<and> status (step Submit initial) = Idle
   \<and> status (step Submit initial) \<noteq> Error"
proof -
  have none: "selectedFile initial = None" and idle: "status initial = Idle"
    by (simp_all add: initial_def)
  have h: "handleSubmit initial =
       (initial\<lparr>errorMessage := Some (JString ''Please choose an image before checking.'')\<rparr>, None)"
    by (rule handleSubmit_without_file [OF none])
  have "step Submit initial =
      initial\<lparr>errorMessage := Some (JString ''Please choose an image before checking.'')\<rparr>"
    by (rule step_Submit_without_file [OF none])
  with none idle h show ?thesis by simp
qed

subsection \<open>Reset\<close>

lemma handleReset_state:
  "handleReset s =
     s\<lparr>selectedFile := None, previewUrl := None, resultUrl := None, status := Idle,
       errorMessage := None, revoked := revoked s @ opt (previewUrl s) @ opt (resultUrl s),
       aborted := aborted s \<union> set_option (pollControllerRef s)\<rparr>"
  by (cases "previewUrl s"; cases "resultUrl s"; cases "pollControllerRef s")
    (simp_all add: handleReset_def clear_result_def resetObjectUrl_def abort_current_def)

text \<open>
  Claim C9. A second reset changes nothing: the state after two resets, with the render and
  the cleanups after each, is the state after one, from any state \<open>s\<close>; the same holds for
  the handler alone. The state after a reset is \<open>s\<close> with the status \<^verbatim>\<open>idle\<close>, no error
  message, no selected file and no handles; the handles that \<open>s\<close> held have been revoked, by
  the handler and again by the cleanups; and the controller of the poll loop that \<open>s\<close>
  refers to, if there is one, has been aborted. Nothing else has changed.
\<close>

theorem reset_idempotent:
  "step Reset (step Reset s) = step Reset s
   \<and> handleReset (handleReset s) = handleReset s
   \<and> step Reset s =
       s\<lparr>selectedFile := None, previewUrl := None, resultUrl := None, status := Idle,
         errorMessage := None,
         revoked := revoked s @ opt (previewUrl s) @ opt (resultUrl s)
                      @ opt (previewUrl s) @ opt (resultUrl s),
         aborted := aborted s \<union> set_option (pollControllerRef s)\<rparr>
   \<and> handleReset s =
       s\<lparr>selectedFile := None, previewUrl := None, resultUrl := None, status := Idle,
         errorMessage := None,
         revoked := revoked s @ opt (previewUrl s) @ opt (resultUrl s),
         aborted := aborted s \<union> set_option (pollControllerRef s)\<rparr>
   \<and> status (step Reset s) = Idle
   \<and> errorMessage (step Reset s) = None
   \<and> selectedFile (step Reset s) = None
   \<and> previewUrl (step Reset s) = None
   \<and> resultUrl (step Reset s) = None
   \<and> (case previewUrl s of None \<Rightarrow> True | Some u \<Rightarrow> u \<in> set (revoked (step Reset s)))
   \<and> (case resultUrl s of None \<Rightarrow> True | Some u \<Rightarrow> u \<in> set (revoked (step Reset s)))
   \<and> (case pollControllerRef s of None \<Rightarrow> True | Some c \<Rightarrow> c \<in> aborted (step Reset s))
   \<and> aborted (step Reset s) = aborted s \<union> set_option (pollControllerRef s)
   \<and> pollControllerRef (step Reset s) = pollControllerRef s"
proof -
  have twice: "step Reset (step Reset s) = step Reset s"
    unfolding step_Reset_state [of "step Reset s"]
    unfolding step_Reset_state [of s]
    by (cases "pollControllerRef s") simp_all
  have handler_twice: "handleReset (handleReset s) = handleReset s"
    unfolding handleReset_state [of "handleReset s"]
    unfolding handleReset_state [of s]
    by (cases "pollControllerRef s") simp_all
  have fields: "status (step Reset s) = Idle" "errorMessage (step Reset s) = None"
    "selectedFile (step Reset s) = None" "previewUrl (step Reset s) = None"
    "resultUrl (step Reset s) = None"
    "aborted (step Reset s) = aborted s \<union> set_option (pollControllerRef s)"
    "pollControllerRef (step Reset s) = pollControllerRef s"
    by (simp_all add: step_Reset_state)
  have revoked_preview:
    "case previewUrl s of None \<Rightarrow> True | Some u \<Rightarrow> u \<in> set (revoked (step Reset s))"
    by (cases "previewUrl s") (simp_all add: step_Reset_state)
  have revoked_result:
    "case resultUrl s of None \<Rightarrow> True | Some u \<Rightarrow> u \<in> set (revoked (step Reset s))"
    by (cases "resultUrl s") (simp_all add: step_Reset_state)
  have cancelled: "case pollControllerRef s of None \<Rightarrow> True
        | Some c \<Rightarrow> c \<in> aborted (step Reset s)"
    by (cases "pollControllerRef s") (simp_all add: step_Reset_state)
  from twice handler_twice step_Reset_state [of s] handleReset_state [of s] fields
    revoked_preview revoked_result cancelled
  show ?thesis by (intro conjI)
qed

section \<open>Properties of the upload route\<close>
















end
